theory Spec2Isabelle
  imports Main "HOL-Library.Word"
begin

section \<open>The coroutine bus of corobus.c\<close>

text \<open>
  The development embeds \<^verbatim>\<open>src/1/corobus.c\<close>: the message vector, the wakeup
  queues, the channels, the bus and every public operation. The cooperative scheduler
  (\<^verbatim>\<open>libcoro.h\<close>) and the intrusive list (\<^verbatim>\<open>rlist.h\<close>) are not part of the
  sources; the file consumes them through \<^verbatim>\<open>coro_this\<close>, \<^verbatim>\<open>coro_suspend\<close>,
  \<^verbatim>\<open>coro_wakeup\<close>, \<^verbatim>\<open>coro_yield\<close> and the list macros only.

  A call that can suspend is cut at its suspension points: the function named after the
  C function runs the call from its entry to its first return or suspension, and the
  function with the suffix \<open>_resume\<close> runs it from the moment \<^verbatim>\<open>coro_suspend\<close>
  returns to the next return or suspension. Exactly one coroutine runs at a time, so each
  such segment is atomic.
\<close>

subsection \<open>Data\<close>

text \<open>A coroutine is named by a number, and so is the address of a channel object.\<close>

type_synonym coro = nat
type_synonym addr = nat

text \<open>\<^verbatim>\<open>unsigned\<close> is 32 bits wide, \<^verbatim>\<open>size_t\<close> 64 bits (LP64).\<close>

type_synonym message = "32 word"
type_synonym size_t = "64 word"

text \<open>
  Modelled from the spec: \<^verbatim>\<open>enum coro_bus_error_code\<close> is declared in
  \<^verbatim>\<open>corobus.h\<close>, which is not among the sources. The first three codes are the ones
  corobus.c uses; the fourth is the allocation error kind the specification lists, which
  corobus.c never sets.
\<close>

datatype coro_bus_error_code =
    CORO_BUS_ERR_NONE
  | CORO_BUS_ERR_NO_CHANNEL
  | CORO_BUS_ERR_WOULD_BLOCK
  | CORO_BUS_ERR_ALLOCATION

text \<open>
  \<^verbatim>\<open>struct data_vector\<close>: \<open>dv_data\<close> holds the \<^verbatim>\<open>size\<close> valid elements of the
  buffer, so \<^verbatim>\<open>size\<close> is its length; \<open>dv_capacity\<close> is the allocated capacity. The
  lengths are natural numbers: a buffer in memory has fewer than \<open>2 ^ 64\<close> elements.
\<close>

record data_vector =
  dv_data :: "message list"
  dv_capacity :: nat

text \<open>
  \<^verbatim>\<open>struct wakeup_queue\<close> is the list of its entries, oldest first. An entry lives
  on the stack of the suspended coroutine it names and a coroutine is suspended in one
  place at a time, so an entry is identified with its coroutine.
\<close>

record coro_bus_channel =
  size_limit :: size_t
  send_queue :: "coro list"
  recv_queue :: "coro list"
  data :: data_vector

text \<open>
  \<^verbatim>\<open>struct coro_bus\<close>: a slot of \<^verbatim>\<open>channels\<close> is \<^verbatim>\<open>NULL\<close> (\<open>None\<close>) or the
  address of a channel object, kept together with the object stored there: the bus is
  the only owner of a channel object. \<^verbatim>\<open>channel_count\<close> is the length of the array,
  and the array pointer is \<^verbatim>\<open>NULL\<close> exactly when the array is empty
  (\<^verbatim>\<open>coro_bus_new\<close> sets both, \<^verbatim>\<open>coro_bus_channel_open\<close> only ever grows it).
\<close>

type_synonym slot = "(addr \<times> coro_bus_channel) option"

record coro_bus =
  channels :: "slot list"

text \<open>
  Everything a call can read or write: the bus behind the pointer every call receives
  (\<open>None\<close> when the caller passes \<^verbatim>\<open>NULL\<close>), the static \<^verbatim>\<open>global_error\<close>, and
  the coroutines \<^verbatim>\<open>coro_wakeup\<close> has been called on.
\<close>

record world =
  bus :: "coro_bus option"
  global_error :: coro_bus_error_code
  woken :: "coro set"

text \<open>
  The locals a suspended call keeps on its stack, one constructor per suspension point:
  \<^item> \<open>In_send channel data chan\<close>: \<^verbatim>\<open>coro_bus_send\<close>, line 248;
  \<^item> \<open>In_recv channel chan\<close>: \<^verbatim>\<open>coro_bus_recv\<close>, line 290;
  \<^item> \<open>In_broadcast data i\<close>: \<^verbatim>\<open>coro_bus_broadcast\<close>, line 375, at loop index \<open>i\<close>;
  \<^item> \<open>In_broadcast_yield data\<close>: \<^verbatim>\<open>coro_bus_broadcast\<close>, line 381;
  \<^item> \<open>In_send_v channel data chan\<close>: \<^verbatim>\<open>coro_bus_send_v\<close>, line 460 (\<^verbatim>\<open>sent\<close> is 0 there);
  \<^item> \<open>In_recv_v channel capacity\<close>: \<^verbatim>\<open>coro_bus_recv_v\<close>, line 530.
\<close>

datatype frame =
    In_send int message addr
  | In_recv int addr
  | In_broadcast message nat
  | In_broadcast_yield message
  | In_send_v int "message list" addr
  | In_recv_v int "32 word"

text \<open>
  How a segment of a call ends: \<open>Fail\<close> is the return value \<open>-1\<close>, \<open>Ok x\<close> the
  return of any other value, carrying \<open>x\<close>, \<open>Suspend k\<close> a call to \<^verbatim>\<open>coro_suspend\<close> or
  \<^verbatim>\<open>coro_yield\<close> with the locals \<open>k\<close>, and \<open>Fault\<close> a step C leaves undefined (a read
  outside the slot array, a \<^verbatim>\<open>NULL\<close> dereference, a failed \<^verbatim>\<open>assert\<close>).
\<close>

datatype 'a outcome = Fail | Ok 'a | Suspend frame | Fault

subsection \<open>The message vector\<close>

text \<open>Lines 21-36. \<^verbatim>\<open>realloc\<close> is taken to succeed: the code does not test its result.\<close>

definition data_vector_append_many :: "data_vector \<Rightarrow> message list \<Rightarrow> data_vector" where
  "data_vector_append_many vector xs =
     (let size = length (dv_data vector);
          count = length xs;
          capacity =
            (if dv_capacity vector < size + count
             then (let c = (if dv_capacity vector = 0 then 4 else dv_capacity vector * 2)
                   in if c < size + count then size + count else c)
             else dv_capacity vector)
      in \<lparr>dv_data = dv_data vector @ xs, dv_capacity = capacity\<rparr>)"

definition data_vector_append :: "data_vector \<Rightarrow> message \<Rightarrow> data_vector" where
  "data_vector_append vector x = data_vector_append_many vector [x]"

text \<open>Lines 45-51; \<open>None\<close> is the failed \<^verbatim>\<open>assert(count <= vector->size)\<close>.\<close>

definition data_vector_pop_first_many ::
  "data_vector \<Rightarrow> nat \<Rightarrow> (message list \<times> data_vector) option" where
  "data_vector_pop_first_many vector count =
     (if count \<le> length (dv_data vector)
      then Some (take count (dv_data vector),
                 vector\<lparr>dv_data := drop count (dv_data vector)\<rparr>)
      else None)"

definition data_vector_pop_first :: "data_vector \<Rightarrow> (message \<times> data_vector) option" where
  "data_vector_pop_first vector =
     (case data_vector_pop_first_many vector 1 of
        None \<Rightarrow> None
      | Some (xs, vector') \<Rightarrow> Some (hd xs, vector'))"

subsection \<open>Wakeup queues and the error state\<close>

definition coro_bus_errno :: "world \<Rightarrow> coro_bus_error_code" where
  "coro_bus_errno w = global_error w"

definition coro_bus_errno_set :: "coro_bus_error_code \<Rightarrow> world \<Rightarrow> world" where
  "coro_bus_errno_set err w = w\<lparr>global_error := err\<rparr>"

text \<open>
  Modelled from the spec: \<^verbatim>\<open>coro_wakeup\<close> belongs to the scheduler, which is not among
  the sources; it marks the coroutine runnable ("resume-a-specific-task").
\<close>

definition coro_wakeup :: "coro \<Rightarrow> world \<Rightarrow> world" where
  "coro_wakeup c w = w\<lparr>woken := insert c (woken w)\<rparr>"

text \<open>Lines 90-97: the first entry is woken and stays in the queue.\<close>

definition wakeup_queue_wakeup_first :: "coro list \<Rightarrow> world \<Rightarrow> world" where
  "wakeup_queue_wakeup_first queue w =
     (case queue of [] \<Rightarrow> w | c # _ \<Rightarrow> coro_wakeup c w)"

text \<open>
  \<^verbatim>\<open>rlist_del_entry(&entry, base)\<close>, line 86, run by a coroutine when it resumes:
  its entry leaves the queue that holds it. An entry a closing task has already deleted
  is linked to itself, and deleting it again changes nothing.
\<close>

definition unlink :: "coro \<Rightarrow> coro_bus_channel \<Rightarrow> coro_bus_channel" where
  "unlink c chan =
     chan\<lparr>send_queue := removeAll c (send_queue chan),
          recv_queue := removeAll c (recv_queue chan)\<rparr>"

definition rlist_del_entry :: "coro \<Rightarrow> world \<Rightarrow> world" where
  "rlist_del_entry c w =
     (case bus w of
        None \<Rightarrow> w
      | Some b \<Rightarrow>
          w\<lparr>bus := Some (b\<lparr>channels := map (map_option (apsnd (unlink c))) (channels b)\<rparr>)\<rparr>)"

subsection \<open>Reading and writing slots\<close>

text \<open>\<^verbatim>\<open>bus->channels[i]\<close>; \<open>None\<close> when the index is outside the array.\<close>

definition read_slot :: "coro_bus \<Rightarrow> int \<Rightarrow> slot option" where
  "read_slot b i =
     (if 0 \<le> i \<and> i < int (length (channels b)) then Some (channels b ! nat i) else None)"

definition slot_of :: "world \<Rightarrow> int \<Rightarrow> slot option" where
  "slot_of w i = (case bus w of None \<Rightarrow> None | Some b \<Rightarrow> read_slot b i)"

text \<open>
  The guard of lines 188, 233, 264, 444, 488, 521 and 549, negated:
  \<^verbatim>\<open>bus == NULL || !bus->channels || channel < 0 || channel >= bus->channel_count || !bus->channels[channel]\<close>.
\<close>

definition channel_at :: "world \<Rightarrow> int \<Rightarrow> (addr \<times> coro_bus_channel) option" where
  "channel_at w channel =
     (case bus w of
        None \<Rightarrow> None
      | Some b \<Rightarrow>
          if channels b = [] \<or> channel < 0 \<or> int (length (channels b)) \<le> channel
          then None
          else channels b ! nat channel)"

text \<open>A write through \<^verbatim>\<open>chan\<close>, the object at address \<open>p\<close> that slot \<open>i\<close> points to.\<close>

definition store_chan :: "int \<Rightarrow> addr \<Rightarrow> coro_bus_channel \<Rightarrow> world \<Rightarrow> world" where
  "store_chan i p chan w =
     (case bus w of
        None \<Rightarrow> w
      | Some b \<Rightarrow> w\<lparr>bus := Some (b\<lparr>channels := (channels b)[nat i := Some (p, chan)]\<rparr>)\<rparr>)"

text \<open>Lines 81-85: the entry of the running coroutine goes to the tail.\<close>

definition park_send :: "coro \<Rightarrow> coro_bus_channel \<Rightarrow> coro_bus_channel" where
  "park_send self chan = chan\<lparr>send_queue := send_queue chan @ [self]\<rparr>"

definition park_recv :: "coro \<Rightarrow> coro_bus_channel \<Rightarrow> coro_bus_channel" where
  "park_recv self chan = chan\<lparr>recv_queue := recv_queue chan @ [self]\<rparr>"

subsection \<open>Creating the bus, opening and closing channels\<close>

definition coro_bus_new :: world where
  "coro_bus_new = \<lparr>bus = Some \<lparr>channels = []\<rparr>, global_error = CORO_BUS_ERR_NONE, woken = {}\<rparr>"

text \<open>The loop of lines 165-170: the index of the first \<^verbatim>\<open>NULL\<close> slot.\<close>

fun first_free :: "slot list \<Rightarrow> nat option" where
  "first_free [] = None"
| "first_free (None # ss) = Some 0"
| "first_free (Some c # ss) = map_option Suc (first_free ss)"

text \<open>
  Lines 151-184. The allocator is the environment: \<open>m\<close> is what
  \<^verbatim>\<open>malloc(sizeof(struct coro_bus_channel))\<close> returns (\<open>None\<close> for \<^verbatim>\<open>NULL\<close>) and
  \<open>r\<close> tells whether the \<^verbatim>\<open>realloc\<close> of the slot array succeeds. The function
  dereferences \<^verbatim>\<open>bus\<close> without a test.
\<close>

definition coro_bus_channel_open ::
  "world \<Rightarrow> size_t \<Rightarrow> addr option \<Rightarrow> bool \<Rightarrow> int outcome \<times> world" where
  "coro_bus_channel_open w limit m r =
     (case m of
        None \<Rightarrow> (Fail, w)
      | Some p \<Rightarrow>
          (let channel = \<lparr>size_limit = limit, send_queue = [], recv_queue = [],
                          data = \<lparr>dv_data = [], dv_capacity = 0\<rparr>\<rparr>
           in case bus w of
                None \<Rightarrow> (Fault, w)
              | Some b \<Rightarrow>
                  (case first_free (channels b) of
                     Some i \<Rightarrow>
                       (Ok (int i),
                        w\<lparr>bus := Some (b\<lparr>channels := (channels b)[i := Some (p, channel)]\<rparr>)\<rparr>)
                   | None \<Rightarrow>
                       if \<not> r then (Fail, coro_bus_errno_set CORO_BUS_ERR_NO_CHANNEL w)
                       else (Ok (int (length (channels b))),
                             w\<lparr>bus := Some (b\<lparr>channels := channels b @ [Some (p, channel)]\<rparr>)\<rparr>))))"

text \<open>The loops of lines 194-203 and 204-213: every entry is deleted and its coroutine woken.\<close>

fun drain :: "coro list \<Rightarrow> world \<Rightarrow> world" where
  "drain [] w = w"
| "drain (c # queue) w = drain queue (coro_wakeup c (coro_bus_errno_set CORO_BUS_ERR_NO_CHANNEL w))"

text \<open>Lines 186-217.\<close>

definition coro_bus_channel_close :: "world \<Rightarrow> int \<Rightarrow> world" where
  "coro_bus_channel_close w channel =
     (case channel_at w channel of
        None \<Rightarrow> w
      | Some (p, chan) \<Rightarrow>
          (let w1 = drain (recv_queue chan) w;
               w2 = drain (send_queue chan) w1
           in case bus w2 of
                None \<Rightarrow> w2
              | Some b \<Rightarrow> w2\<lparr>bus := Some (b\<lparr>channels := (channels b)[nat channel := None]\<rparr>)\<rparr>))"

subsection \<open>Sending and receiving one message\<close>

text \<open>\<^verbatim>\<open>chan->data.size < chan->size_limit\<close>, both of type \<^verbatim>\<open>size_t\<close>.\<close>

definition has_room :: "coro_bus_channel \<Rightarrow> bool" where
  "has_room chan \<longleftrightarrow> length (dv_data (data chan)) < unat (size_limit chan)"

text \<open>Lines 219-255, from the entry to the first return or suspension.\<close>

definition coro_bus_send :: "world \<Rightarrow> coro \<Rightarrow> int \<Rightarrow> message \<Rightarrow> unit outcome \<times> world" where
  "coro_bus_send w self channel x =
     (case channel_at w channel of
        None \<Rightarrow> (Fail, coro_bus_errno_set CORO_BUS_ERR_NO_CHANNEL w)
      | Some (p, chan) \<Rightarrow>
          if has_room chan
          then (Ok (),
                wakeup_queue_wakeup_first (send_queue chan)
                  (wakeup_queue_wakeup_first (recv_queue chan)
                     (store_chan channel p (chan\<lparr>data := data_vector_append (data chan) x\<rparr>) w)))
          else (Suspend (In_send channel x p), store_chan channel p (park_send self chan) w))"

text \<open>
  Lines 248-254, after \<^verbatim>\<open>coro_suspend\<close> has returned: the entry is deleted, the slot
  is compared with the saved pointer \<open>p\<close>, and the loop starts over.
\<close>

definition coro_bus_send_resume ::
  "world \<Rightarrow> coro \<Rightarrow> int \<Rightarrow> message \<Rightarrow> addr \<Rightarrow> unit outcome \<times> world" where
  "coro_bus_send_resume w self channel x p =
     (let w1 = rlist_del_entry self w
      in case slot_of w1 channel of
           None \<Rightarrow> (Fault, w1)
         | Some None \<Rightarrow> (Fail, coro_bus_errno_set CORO_BUS_ERR_NO_CHANNEL w1)
         | Some (Some (q, chan)) \<Rightarrow>
             if q \<noteq> p then (Fail, coro_bus_errno_set CORO_BUS_ERR_NO_CHANNEL w1)
             else coro_bus_send w1 self channel x)"

text \<open>Lines 257-279.\<close>

definition coro_bus_try_send :: "world \<Rightarrow> int \<Rightarrow> message \<Rightarrow> unit outcome \<times> world" where
  "coro_bus_try_send w channel x =
     (case channel_at w channel of
        None \<Rightarrow> (Fail, coro_bus_errno_set CORO_BUS_ERR_NO_CHANNEL w)
      | Some (p, chan) \<Rightarrow>
          if \<not> has_room chan
          then (Fail, coro_bus_errno_set CORO_BUS_ERR_WOULD_BLOCK w)
          else (Ok (),
                wakeup_queue_wakeup_first (recv_queue chan)
                  (store_chan channel p (chan\<lparr>data := data_vector_append (data chan) x\<rparr>) w)))"

text \<open>
  The loop of lines 289-295 and lines 297-299, entered with \<^verbatim>\<open>chan\<close> the object at
  address \<open>p\<close> in slot \<open>channel\<close>.
\<close>

definition recv_wait ::
  "world \<Rightarrow> coro \<Rightarrow> int \<Rightarrow> addr \<Rightarrow> coro_bus_channel \<Rightarrow> message outcome \<times> world" where
  "recv_wait w self channel p chan =
     (if dv_data (data chan) = []
      then (Suspend (In_recv channel p), store_chan channel p (park_recv self chan) w)
      else (case data_vector_pop_first (data chan) of
              None \<Rightarrow> (Fault, w)
            | Some (x, vector) \<Rightarrow>
                (Ok x,
                 wakeup_queue_wakeup_first (send_queue chan)
                   (store_chan channel p (chan\<lparr>data := vector\<rparr>) w))))"

text \<open>
  Lines 281-300. The guard of line 283 tests neither \<^verbatim>\<open>channel < 0\<close> nor
  \<^verbatim>\<open>channel >= bus->channel_count\<close> before it reads \<^verbatim>\<open>bus->channels[channel]\<close>.
\<close>

definition coro_bus_recv :: "world \<Rightarrow> coro \<Rightarrow> int \<Rightarrow> message outcome \<times> world" where
  "coro_bus_recv w self channel =
     (case bus w of
        None \<Rightarrow> (Fail, coro_bus_errno_set CORO_BUS_ERR_NO_CHANNEL w)
      | Some b \<Rightarrow>
          if channels b = [] then (Fail, coro_bus_errno_set CORO_BUS_ERR_NO_CHANNEL w)
          else (case read_slot b channel of
                  None \<Rightarrow> (Fault, w)
                | Some None \<Rightarrow> (Fail, coro_bus_errno_set CORO_BUS_ERR_NO_CHANNEL w)
                | Some (Some (p, chan)) \<Rightarrow> recv_wait w self channel p chan))"

text \<open>Lines 290-295, after \<^verbatim>\<open>coro_suspend\<close> has returned.\<close>

definition coro_bus_recv_resume ::
  "world \<Rightarrow> coro \<Rightarrow> int \<Rightarrow> addr \<Rightarrow> message outcome \<times> world" where
  "coro_bus_recv_resume w self channel p =
     (let w1 = rlist_del_entry self w
      in case slot_of w1 channel of
           None \<Rightarrow> (Fault, w1)
         | Some None \<Rightarrow> (Fail, coro_bus_errno_set CORO_BUS_ERR_NO_CHANNEL w1)
         | Some (Some (q, chan)) \<Rightarrow>
             if q \<noteq> p then (Fail, coro_bus_errno_set CORO_BUS_ERR_NO_CHANNEL w1)
             else recv_wait w1 self channel p chan)"

text \<open>Lines 302-319, with the guard of \<^verbatim>\<open>coro_bus_recv\<close>.\<close>

definition coro_bus_try_recv :: "world \<Rightarrow> int \<Rightarrow> message outcome \<times> world" where
  "coro_bus_try_recv w channel =
     (case bus w of
        None \<Rightarrow> (Fail, coro_bus_errno_set CORO_BUS_ERR_NO_CHANNEL w)
      | Some b \<Rightarrow>
          if channels b = [] then (Fail, coro_bus_errno_set CORO_BUS_ERR_NO_CHANNEL w)
          else (case read_slot b channel of
                  None \<Rightarrow> (Fault, w)
                | Some None \<Rightarrow> (Fail, coro_bus_errno_set CORO_BUS_ERR_NO_CHANNEL w)
                | Some (Some (p, chan)) \<Rightarrow>
                    if dv_data (data chan) = []
                    then (Fail, coro_bus_errno_set CORO_BUS_ERR_WOULD_BLOCK w)
                    else (case data_vector_pop_first (data chan) of
                            None \<Rightarrow> (Fault, w)
                          | Some (x, vector) \<Rightarrow>
                              (Ok x,
                               wakeup_queue_wakeup_first (send_queue chan)
                                 (store_chan channel p (chan\<lparr>data := vector\<rparr>) w)))))"

subsection \<open>Broadcast\<close>

text \<open>\<^verbatim>\<open>chan->data.size >= chan->size_limit && rlist_empty(&chan->recv_queue.coros)\<close>, lines 352 and 374.\<close>

definition blocked :: "coro_bus_channel \<Rightarrow> bool" where
  "blocked chan \<longleftrightarrow> \<not> has_room chan \<and> recv_queue chan = []"

definition blocked_slot :: "slot \<Rightarrow> bool" where
  "blocked_slot s = (case s of None \<Rightarrow> False | Some (p, chan) \<Rightarrow> blocked chan)"

text \<open>\<^verbatim>\<open>chan->data.size >= chan->size_limit\<close> on a slot that is not \<^verbatim>\<open>NULL\<close>, line 414.\<close>

definition full_slot :: "slot \<Rightarrow> bool" where
  "full_slot s = (case s of None \<Rightarrow> False | Some (p, chan) \<Rightarrow> \<not> has_room chan)"

text \<open>
  The loops of lines 359-365 and 421-428: the message is appended to every channel and
  the first receiver of each is woken.
\<close>

definition deliver :: "message \<Rightarrow> slot \<Rightarrow> slot" where
  "deliver x s =
     (case s of
        None \<Rightarrow> None
      | Some (p, chan) \<Rightarrow> Some (p, chan\<lparr>data := data_vector_append (data chan) x\<rparr>))"

fun wake_receivers :: "slot list \<Rightarrow> world \<Rightarrow> world" where
  "wake_receivers [] w = w"
| "wake_receivers (None # ss) w = wake_receivers ss w"
| "wake_receivers (Some (p, chan) # ss) w =
     wake_receivers ss (wakeup_queue_wakeup_first (recv_queue chan) w)"

definition broadcast_commit :: "message \<Rightarrow> coro_bus \<Rightarrow> world \<Rightarrow> world" where
  "broadcast_commit x b w =
     wake_receivers (channels b) (w\<lparr>bus := Some (b\<lparr>channels := map (deliver x) (channels b)\<rparr>)\<rparr>)"

text \<open>
  The loop of lines 370-378 up to its first suspension: the first blocked channel among
  the given slots, the first of which has index \<open>i\<close>.
\<close>

fun next_blocked :: "slot list \<Rightarrow> nat \<Rightarrow> (nat \<times> addr \<times> coro_bus_channel) option" where
  "next_blocked [] i = None"
| "next_blocked (None # ss) i = next_blocked ss (Suc i)"
| "next_blocked (Some (p, chan) # ss) i =
     (if blocked chan then Some (i, p, chan) else next_blocked ss (Suc i))"

text \<open>Lines 324-384, from the entry to the first return or suspension.\<close>

definition coro_bus_broadcast :: "world \<Rightarrow> coro \<Rightarrow> message \<Rightarrow> unit outcome \<times> world" where
  "coro_bus_broadcast w self x =
     (case bus w of
        None \<Rightarrow> (Fail, coro_bus_errno_set CORO_BUS_ERR_NO_CHANNEL w)
      | Some b \<Rightarrow>
          if channels b = [] then (Fail, coro_bus_errno_set CORO_BUS_ERR_NO_CHANNEL w)
          else if \<not> list_ex (\<lambda>s. s \<noteq> None) (channels b)
          then (Fail, coro_bus_errno_set CORO_BUS_ERR_NO_CHANNEL w)
          else if \<not> list_ex blocked_slot (channels b)
          then (Ok (), broadcast_commit x b w)
          else (case next_blocked (channels b) 0 of
                  Some (i, p, chan) \<Rightarrow>
                    (Suspend (In_broadcast x i), store_chan (int i) p (park_send self chan) w)
                | None \<Rightarrow> (Suspend (In_broadcast_yield x), w)))"

text \<open>
  Line 375 at loop index \<open>i\<close>, after \<^verbatim>\<open>coro_suspend\<close> has returned: the entry is
  deleted and the loop goes on with the slots after \<open>i\<close>; \<^verbatim>\<open>suspended\<close> is true, so
  at the end of the loop the outer loop starts over without yielding.
\<close>

definition coro_bus_broadcast_resume ::
  "world \<Rightarrow> coro \<Rightarrow> message \<Rightarrow> nat \<Rightarrow> unit outcome \<times> world" where
  "coro_bus_broadcast_resume w self x i =
     (let w1 = rlist_del_entry self w
      in case bus w1 of
           None \<Rightarrow> (Fault, w1)
         | Some b \<Rightarrow>
             (case next_blocked (drop (Suc i) (channels b)) (Suc i) of
                Some (j, p, chan) \<Rightarrow>
                  (Suspend (In_broadcast x j), store_chan (int j) p (park_send self chan) w1)
              | None \<Rightarrow> coro_bus_broadcast w1 self x))"

text \<open>Line 381, after \<^verbatim>\<open>coro_yield\<close> has returned: the outer loop starts over.\<close>

definition coro_bus_broadcast_yield_resume ::
  "world \<Rightarrow> coro \<Rightarrow> message \<Rightarrow> unit outcome \<times> world" where
  "coro_bus_broadcast_yield_resume w self x = coro_bus_broadcast w self x"

text \<open>Lines 386-435.\<close>

definition coro_bus_try_broadcast :: "world \<Rightarrow> message \<Rightarrow> unit outcome \<times> world" where
  "coro_bus_try_broadcast w x =
     (case bus w of
        None \<Rightarrow> (Fail, coro_bus_errno_set CORO_BUS_ERR_NO_CHANNEL w)
      | Some b \<Rightarrow>
          if channels b = [] then (Fail, coro_bus_errno_set CORO_BUS_ERR_NO_CHANNEL w)
          else if \<not> list_ex (\<lambda>s. s \<noteq> None) (channels b)
          then (Fail, coro_bus_errno_set CORO_BUS_ERR_NO_CHANNEL w)
          else if \<not> list_ex full_slot (channels b)
          then (Ok (), broadcast_commit x b w)
          else (Fail, coro_bus_errno_set CORO_BUS_ERR_WOULD_BLOCK w))"

subsection \<open>Batches\<close>

text \<open>
  \<^verbatim>\<open>unsigned space = chan->size_limit - chan->data.size\<close>, lines 458 and 496: the
  difference of two \<^verbatim>\<open>size_t\<close> values, converted to \<^verbatim>\<open>unsigned\<close>.
\<close>

definition space_of :: "coro_bus_channel \<Rightarrow> 32 word" where
  "space_of chan = ucast (size_limit chan - word_of_nat (length (dv_data (data chan))))"

text \<open>The loops of lines 471-474 and 507-510.\<close>

fun append_each :: "coro list \<Rightarrow> message list \<Rightarrow> data_vector \<Rightarrow> world \<Rightarrow> data_vector \<times> world" where
  "append_each queue [] vector w = (vector, w)"
| "append_each queue (x # xs) vector w =
     append_each queue xs (data_vector_append vector x) (wakeup_queue_wakeup_first queue w)"

text \<open>
  The four batch functions return \<^verbatim>\<open>int\<close>, and what they return on success is an
  \<^verbatim>\<open>unsigned\<close> count (lines 479, 515 and 569; line 541 hands the \<^verbatim>\<open>int\<close> of line
  569 on). The conversion is two's complement: a count of \<open>2 ^ 31\<close> or more comes back
  as a negative \<^verbatim>\<open>int\<close>, and the count \<open>2 ^ 32 - 1\<close> as \<open>-1\<close>, the value of a
  failure. \<open>returning k x\<close> is how \<^verbatim>\<open>return k\<close> ends a call: as \<open>Fail\<close> when \<open>k\<close>
  is \<open>-1\<close>, whichever statement returns it, and as \<open>Ok x\<close> otherwise.
\<close>

definition returning :: "int \<Rightarrow> 'a \<Rightarrow> 'a outcome" where
  "returning k x = (if k = - 1 then Fail else Ok x)"

text \<open>
  A batch to send is the array behind \<^verbatim>\<open>data\<close> (\<open>None\<close> for \<^verbatim>\<open>NULL\<close>);
  \<^verbatim>\<open>count\<close> is its length, as an \<^verbatim>\<open>unsigned\<close>. A successful return carries the
  \<^verbatim>\<open>int\<close> returned.

  Lines 458-479 with \<^verbatim>\<open>sent\<close> equal to 0, \<^verbatim>\<open>chan\<close> being the object at address
  \<open>p\<close> in slot \<open>channel\<close>.
\<close>

definition send_v_pass ::
  "world \<Rightarrow> coro \<Rightarrow> int \<Rightarrow> message list \<Rightarrow> addr \<Rightarrow> coro_bus_channel \<Rightarrow> int outcome \<times> world" where
  "send_v_pass w self channel xs p chan =
     (let count = (word_of_nat (length xs) :: 32 word);
          sent = (0 :: 32 word);
          space = space_of chan
      in if space = 0
         then (Suspend (In_send_v channel xs p), store_chan channel p (park_send self chan) w)
         else (let to_send = (if count - sent < space then count - sent else space);
                   (vector, w1) =
                     append_each (recv_queue chan) (take (unat to_send) xs) (data chan) w
               in (returning (sint (sent + to_send)) (sint (sent + to_send)),
                   wakeup_queue_wakeup_first (send_queue chan)
                     (store_chan channel p (chan\<lparr>data := vector\<rparr>) w1))))"

text \<open>Lines 441-481, from the entry to the first return or suspension.\<close>

definition coro_bus_send_v ::
  "world \<Rightarrow> coro \<Rightarrow> int \<Rightarrow> message list option \<Rightarrow> int outcome \<times> world" where
  "coro_bus_send_v w self channel data_ptr =
     (case data_ptr of
        None \<Rightarrow> (Fail, coro_bus_errno_set CORO_BUS_ERR_NO_CHANNEL w)
      | Some xs \<Rightarrow>
          (case channel_at w channel of
             None \<Rightarrow> (Fail, coro_bus_errno_set CORO_BUS_ERR_NO_CHANNEL w)
           | Some (p, chan) \<Rightarrow> send_v_pass w self channel xs p chan))"

text \<open>Lines 460-466 after \<^verbatim>\<open>coro_suspend\<close> has returned, then the loop from line 453.\<close>

definition coro_bus_send_v_resume ::
  "world \<Rightarrow> coro \<Rightarrow> int \<Rightarrow> message list \<Rightarrow> addr \<Rightarrow> int outcome \<times> world" where
  "coro_bus_send_v_resume w self channel xs p =
     (let w1 = rlist_del_entry self w
      in case slot_of w1 channel of
           None \<Rightarrow> (Fault, w1)
         | Some None \<Rightarrow> (Fail, coro_bus_errno_set CORO_BUS_ERR_NO_CHANNEL w1)
         | Some (Some (q, chan)) \<Rightarrow>
             if q \<noteq> p then (Fail, coro_bus_errno_set CORO_BUS_ERR_NO_CHANNEL w1)
             else send_v_pass w1 self channel xs p chan)"

text \<open>Lines 484-516.\<close>

definition coro_bus_try_send_v ::
  "world \<Rightarrow> int \<Rightarrow> message list option \<Rightarrow> int outcome \<times> world" where
  "coro_bus_try_send_v w channel data_ptr =
     (case data_ptr of
        None \<Rightarrow> (Fail, coro_bus_errno_set CORO_BUS_ERR_NO_CHANNEL w)
      | Some xs \<Rightarrow>
          (case channel_at w channel of
             None \<Rightarrow> (Fail, coro_bus_errno_set CORO_BUS_ERR_NO_CHANNEL w)
           | Some (p, chan) \<Rightarrow>
               (let count = (word_of_nat (length xs) :: 32 word);
                    space = space_of chan
                in if space = 0
                   then (Fail, coro_bus_errno_set CORO_BUS_ERR_WOULD_BLOCK w)
                   else (let to_send = (if count < space then count else space);
                             (vector, w1) =
                               append_each (recv_queue chan) (take (unat to_send) xs) (data chan) w
                         in (returning (sint to_send) (sint to_send),
                             wakeup_queue_wakeup_first (send_queue chan)
                               (store_chan channel p (chan\<lparr>data := vector\<rparr>) w1))))))"

text \<open>The loop of lines 563-565.\<close>

fun pop_each :: "nat \<Rightarrow> data_vector \<Rightarrow> (message list \<times> data_vector) option" where
  "pop_each 0 vector = Some ([], vector)"
| "pop_each (Suc n) vector =
     (case data_vector_pop_first vector of
        None \<Rightarrow> None
      | Some (x, vector') \<Rightarrow>
          (case pop_each n vector' of
             None \<Rightarrow> None
           | Some (xs, vector'') \<Rightarrow> Some (x # xs, vector'')))"

text \<open>
  Lines 545-570. \<open>data_ok\<close> tells whether the buffer \<^verbatim>\<open>data\<close> is not \<^verbatim>\<open>NULL\<close>.
  A successful return carries the \<^verbatim>\<open>int\<close> returned, which is \<^verbatim>\<open>recv_count\<close>
  converted, and the messages written to the buffer.
\<close>

definition coro_bus_try_recv_v ::
  "world \<Rightarrow> int \<Rightarrow> bool \<Rightarrow> 32 word \<Rightarrow> (int \<times> message list) outcome \<times> world" where
  "coro_bus_try_recv_v w channel data_ok capacity =
     (if \<not> data_ok then (Fail, coro_bus_errno_set CORO_BUS_ERR_NO_CHANNEL w)
      else (case channel_at w channel of
              None \<Rightarrow> (Fail, coro_bus_errno_set CORO_BUS_ERR_NO_CHANNEL w)
            | Some (p, chan) \<Rightarrow>
                if dv_data (data chan) = []
                then (Fail, coro_bus_errno_set CORO_BUS_ERR_WOULD_BLOCK w)
                else (let size = length (dv_data (data chan));
                          recv_count =
                            (if unat capacity < size then capacity else (word_of_nat size :: 32 word))
                      in case pop_each (unat recv_count) (data chan) of
                           None \<Rightarrow> (Fault, w)
                         | Some (xs, vector) \<Rightarrow>
                             (returning (sint recv_count) (sint recv_count, xs),
                              wakeup_queue_wakeup_first (send_queue chan)
                                (store_chan channel p (chan\<lparr>data := vector\<rparr>) w)))))"

text \<open>
  Lines 528-534, the body of the loop, run when the \<^verbatim>\<open>int\<close> that
  \<^verbatim>\<open>coro_bus_try_recv_v\<close> has returned is negative; \<open>w1\<close> is the state it has left.
\<close>

definition recv_v_retry ::
  "world \<Rightarrow> coro \<Rightarrow> int \<Rightarrow> 32 word \<Rightarrow> (int \<times> message list) outcome \<times> world" where
  "recv_v_retry w1 self channel capacity =
     (if coro_bus_errno w1 = CORO_BUS_ERR_WOULD_BLOCK
      then (let w2 = coro_bus_errno_set CORO_BUS_ERR_NONE w1
            in case channel_at w2 channel of
                 None \<Rightarrow> (Fault, w2)
               | Some (p, chan) \<Rightarrow>
                   (Suspend (In_recv_v channel capacity),
                    store_chan channel p (park_recv self chan) w2))
      else (Fail, w1))"

text \<open>
  The loop of lines 527-535 and lines 537-541. The test of line 527 is
  \<^verbatim>\<open>recv_count < 0\<close> on the \<^verbatim>\<open>int\<close> returned; line 541 returns that \<^verbatim>\<open>int\<close>,
  which is not negative there.
\<close>

definition recv_v_pass ::
  "world \<Rightarrow> coro \<Rightarrow> int \<Rightarrow> bool \<Rightarrow> 32 word \<Rightarrow> (int \<times> message list) outcome \<times> world" where
  "recv_v_pass w self channel data_ok capacity =
     (let (res, w1) = coro_bus_try_recv_v w channel data_ok capacity
      in case res of
           Fail \<Rightarrow> recv_v_retry w1 self channel capacity
         | Ok (recv_count, xs) \<Rightarrow>
             if recv_count < 0 then recv_v_retry w1 self channel capacity
             else (case channel_at w1 channel of
                     None \<Rightarrow> (Fault, w1)
                   | Some (p, chan) \<Rightarrow>
                       (Ok (recv_count, xs),
                        if dv_data (data chan) \<noteq> []
                        then wakeup_queue_wakeup_first (recv_queue chan) w1
                        else w1))
         | Suspend k \<Rightarrow> (Suspend k, w1)
         | Fault \<Rightarrow> (Fault, w1))"

text \<open>Lines 519-542, from the entry to the first return or suspension.\<close>

definition coro_bus_recv_v ::
  "world \<Rightarrow> coro \<Rightarrow> int \<Rightarrow> bool \<Rightarrow> 32 word \<Rightarrow> (int \<times> message list) outcome \<times> world" where
  "coro_bus_recv_v w self channel data_ok capacity =
     (if \<not> data_ok \<or> channel_at w channel = None
      then (Fail, coro_bus_errno_set CORO_BUS_ERR_NO_CHANNEL w)
      else recv_v_pass w self channel data_ok capacity)"

text \<open>Lines 530-531 after \<^verbatim>\<open>coro_suspend\<close> has returned: the loop tries again.\<close>

definition coro_bus_recv_v_resume ::
  "world \<Rightarrow> coro \<Rightarrow> int \<Rightarrow> 32 word \<Rightarrow> (int \<times> message list) outcome \<times> world" where
  "coro_bus_recv_v_resume w self channel capacity =
     recv_v_pass (rlist_del_entry self w) self channel True capacity"

subsection \<open>Steps of the system\<close>

text \<open>
  One atomic step: a whole call of an operation that cannot suspend, the first segment
  of a call that can, or the resumption of a suspended call with its saved locals.
\<close>

datatype step =
    Open size_t "addr option" bool
  | Close int
  | Send coro int message
  | Try_send int message
  | Recv coro int
  | Try_recv int
  | Broadcast coro message
  | Try_broadcast message
  | Send_v coro int "message list option"
  | Try_send_v int "message list option"
  | Recv_v coro int bool "32 word"
  | Try_recv_v int bool "32 word"
  | Resume coro frame

text \<open>
  How a step ends, without what it returns: \<open>Failed\<close> is the return of \<open>-1\<close>,
  \<open>Returned\<close> the return of any other value.
\<close>

datatype status = Failed | Returned | Suspended frame | Faulted

fun status_of :: "'a outcome \<Rightarrow> status" where
  "status_of Fail = Failed"
| "status_of (Ok x) = Returned"
| "status_of (Suspend k) = Suspended k"
| "status_of Fault = Faulted"

fun resume :: "coro \<Rightarrow> frame \<Rightarrow> world \<Rightarrow> status \<times> world" where
  "resume c (In_send channel x p) w = apfst status_of (coro_bus_send_resume w c channel x p)"
| "resume c (In_recv channel p) w = apfst status_of (coro_bus_recv_resume w c channel p)"
| "resume c (In_broadcast x i) w = apfst status_of (coro_bus_broadcast_resume w c x i)"
| "resume c (In_broadcast_yield x) w = apfst status_of (coro_bus_broadcast_yield_resume w c x)"
| "resume c (In_send_v channel xs p) w = apfst status_of (coro_bus_send_v_resume w c channel xs p)"
| "resume c (In_recv_v channel capacity) w =
     apfst status_of (coro_bus_recv_v_resume w c channel capacity)"

fun perform :: "step \<Rightarrow> world \<Rightarrow> status \<times> world" where
  "perform (Open limit m r) w = apfst status_of (coro_bus_channel_open w limit m r)"
| "perform (Close channel) w = (Returned, coro_bus_channel_close w channel)"
| "perform (Send c channel x) w = apfst status_of (coro_bus_send w c channel x)"
| "perform (Try_send channel x) w = apfst status_of (coro_bus_try_send w channel x)"
| "perform (Recv c channel) w = apfst status_of (coro_bus_recv w c channel)"
| "perform (Try_recv channel) w = apfst status_of (coro_bus_try_recv w channel)"
| "perform (Broadcast c x) w = apfst status_of (coro_bus_broadcast w c x)"
| "perform (Try_broadcast x) w = apfst status_of (coro_bus_try_broadcast w x)"
| "perform (Send_v c channel d) w = apfst status_of (coro_bus_send_v w c channel d)"
| "perform (Try_send_v channel d) w = apfst status_of (coro_bus_try_send_v w channel d)"
| "perform (Recv_v c channel ok capacity) w =
     apfst status_of (coro_bus_recv_v w c channel ok capacity)"
| "perform (Try_recv_v channel ok capacity) w =
     apfst status_of (coro_bus_try_recv_v w channel ok capacity)"
| "perform (Resume c k) w = resume c k w"

definition exec :: "step \<Rightarrow> world \<Rightarrow> world" where
  "exec st w = snd (perform st w)"

text \<open>A run: the steps are taken one after the other, the first of the list first.\<close>

fun run :: "step list \<Rightarrow> world \<Rightarrow> world" where
  "run [] w = w"
| "run (st # sts) w = run sts (exec st w)"

text \<open>The operations that must not suspend, and the segments of those that may.\<close>

fun nonblocking :: "step \<Rightarrow> bool" where
  "nonblocking (Try_send channel x) = True"
| "nonblocking (Try_recv channel) = True"
| "nonblocking (Try_broadcast x) = True"
| "nonblocking (Try_send_v channel d) = True"
| "nonblocking (Try_recv_v channel ok capacity) = True"
| "nonblocking st = False"

fun blocking :: "step \<Rightarrow> bool" where
  "blocking (Send c channel x) = True"
| "blocking (Recv c channel) = True"
| "blocking (Broadcast c x) = True"
| "blocking (Send_v c channel d) = True"
| "blocking (Recv_v c channel ok capacity) = True"
| "blocking (Resume c k) = True"
| "blocking st = False"

text \<open>
  The steps whose batch has fewer than \<open>2 ^ 31\<close> messages (for a batch to receive,
  whose buffer has fewer than \<open>2 ^ 31\<close> places): the count they return fits an
  \<^verbatim>\<open>int\<close>. Every step without a batch is one of them.
\<close>

fun small_batch :: "step \<Rightarrow> bool" where
  "small_batch (Send_v c channel (Some xs)) \<longleftrightarrow> length xs < 2 ^ 31"
| "small_batch (Try_send_v channel (Some xs)) \<longleftrightarrow> length xs < 2 ^ 31"
| "small_batch (Recv_v c channel ok capacity) \<longleftrightarrow> unat capacity < 2 ^ 31"
| "small_batch (Try_recv_v channel ok capacity) \<longleftrightarrow> unat capacity < 2 ^ 31"
| "small_batch (Resume c (In_send_v channel xs p)) \<longleftrightarrow> length xs < 2 ^ 31"
| "small_batch (Resume c (In_recv_v channel capacity)) \<longleftrightarrow> unat capacity < 2 ^ 31"
| "small_batch st \<longleftrightarrow> True"

text \<open>The segments of \<^verbatim>\<open>coro_bus_broadcast\<close>.\<close>

fun broadcasting :: "step \<Rightarrow> bool" where
  "broadcasting (Broadcast c x) = True"
| "broadcasting (Resume c (In_broadcast x i)) = True"
| "broadcasting (Resume c (In_broadcast_yield x)) = True"
| "broadcasting st = False"

subsection \<open>The capacity bound\<close>

definition within_limit :: "slot \<Rightarrow> bool" where
  "within_limit s =
     (case s of
        None \<Rightarrow> True
      | Some (p, chan) \<Rightarrow> length (dv_data (data chan)) \<le> unat (size_limit chan))"

definition bounded :: "world \<Rightarrow> bool" where
  "bounded w = (case bus w of None \<Rightarrow> True | Some b \<Rightarrow> list_all within_limit (channels b))"

text \<open>A channel that is full although a receiver is in its queue.\<close>

definition receiver_on_full :: "slot \<Rightarrow> bool" where
  "receiver_on_full s =
     (case s of
        None \<Rightarrow> False
      | Some (p, chan) \<Rightarrow> \<not> has_room chan \<and> recv_queue chan \<noteq> [])"

definition receiver_waits_on_full :: "world \<Rightarrow> bool" where
  "receiver_waits_on_full w =
     (case bus w of None \<Rightarrow> False | Some b \<Rightarrow> list_ex receiver_on_full (channels b))"

subsection \<open>Example runs\<close>

text \<open>
  A channel of capacity 1 is opened, coroutine 5 parks in \<^verbatim>\<open>coro_bus_recv\<close> on the
  empty channel, and another coroutine fills the channel with \<^verbatim>\<open>coro_bus_try_send\<close>
  before coroutine 5 has run again: its entry is still in the queue of receivers.
\<close>

definition receiver_then_full :: world where
  "receiver_then_full = run [Open 1 (Some 1) True, Recv 5 0, Try_send 0 7] coro_bus_new"

text \<open>One empty channel of capacity 3, at handle 0.\<close>

definition one_channel :: world where
  "one_channel = run [Open 3 (Some 1) True] coro_bus_new"

text \<open>
  Channel A of capacity 2 with nothing queued at handle 0, channel B of capacity 1 with
  one message queued at handle 1.
\<close>

definition two_channels :: world where
  "two_channels = run [Open 2 (Some 1) True, Open 1 (Some 2) True, Try_send 1 8] coro_bus_new"

text \<open>One empty channel whose capacity is \<open>2 ^ 32\<close>.\<close>

definition huge_channel :: world where
  "huge_channel = run [Open 4294967296 (Some 1) True] coro_bus_new"

text \<open>
  A channel of capacity 1 is opened at address 1 and filled, and coroutine 5 parks in
  \<^verbatim>\<open>coro_bus_send(bus, 0, 9)\<close> on it.
\<close>

definition parked_sender :: world where
  "parked_sender = run [Open 1 (Some 1) True, Try_send 0 7, Send 5 0 9] coro_bus_new"

text \<open>
  The running coroutine then closes the channel and opens one of capacity 1 again before it
  gives up control; \<^verbatim>\<open>malloc\<close> hands out the address \<^verbatim>\<open>free\<close> has just released.
\<close>

definition closed_and_reopened :: world where
  "closed_and_reopened = run [Close 0, Open 1 (Some 1) True] parked_sender"

text \<open>Two channels are opened and the first is closed: slot 0 is free, slot 1 is not.\<close>

definition slot_released :: world where
  "slot_released = run [Open 3 (Some 1) True, Open 3 (Some 2) True, Close 0] coro_bus_new"

text \<open>
  A channel of capacity \<open>2 ^ 32 - 1\<close> is opened and \<^verbatim>\<open>coro_bus_try_recv\<close> is called
  on it while it is empty: the call fails and leaves \<^verbatim>\<open>CORO_BUS_ERR_WOULD_BLOCK\<close> as
  the last error.
\<close>

definition stale_would_block :: world where
  "stale_would_block = run [Open 4294967295 (Some 1) True, Try_recv 0] coro_bus_new"

text \<open>Batches of \<open>2 ^ 32 - 1\<close> and of \<open>2 ^ 31\<close> messages.\<close>

definition full_batch :: "message list" where
  "full_batch = replicate 4294967295 0"

definition half_batch :: "message list" where
  "half_batch = replicate 2147483648 0"

text \<open>The messages queued in the channel behind a handle.\<close>

definition queue_at :: "world \<Rightarrow> int \<Rightarrow> message list option" where
  "queue_at w channel = map_option (\<lambda>(p, chan). dv_data (data chan)) (channel_at w channel)"

subsection \<open>A sender followed by a receiver\<close>

text \<open>
  A caller that sends the messages of a list one by one with \<^verbatim>\<open>coro_bus_send\<close>, and
  a caller that receives \<open>n\<close> messages one by one with \<^verbatim>\<open>coro_bus_recv\<close>. The
  result is \<open>None\<close> as soon as a call does anything but return successfully.
\<close>

fun send_all :: "coro \<Rightarrow> int \<Rightarrow> message list \<Rightarrow> world \<Rightarrow> world option" where
  "send_all c channel [] w = Some w"
| "send_all c channel (x # xs) w =
     (case fst (coro_bus_send w c channel x) of
        Ok u \<Rightarrow> send_all c channel xs (snd (coro_bus_send w c channel x))
      | _ \<Rightarrow> None)"

fun recv_all :: "coro \<Rightarrow> int \<Rightarrow> nat \<Rightarrow> world \<Rightarrow> (message list \<times> world) option" where
  "recv_all c channel 0 w = Some ([], w)"
| "recv_all c channel (Suc n) w =
     (case fst (coro_bus_recv w c channel) of
        Ok x \<Rightarrow>
          (case recv_all c channel n (snd (coro_bus_recv w c channel)) of
             None \<Rightarrow> None
           | Some (xs, w') \<Rightarrow> Some (x # xs, w'))
      | _ \<Rightarrow> None)"

section \<open>Properties\<close>

subsection \<open>Auxiliary facts\<close>

lemma data_vector_append_data:
  "dv_data (data_vector_append vector x) = dv_data vector @ [x]"
  by (simp add: data_vector_append_def data_vector_append_many_def Let_def)

lemma bus_errno_set [simp]: "bus (coro_bus_errno_set e w) = bus w"
  by (simp add: coro_bus_errno_set_def)

lemma bus_coro_wakeup [simp]: "bus (coro_wakeup c w) = bus w"
  by (simp add: coro_wakeup_def)

lemma bus_wakeup_first [simp]: "bus (wakeup_queue_wakeup_first q w) = bus w"
  by (simp add: wakeup_queue_wakeup_first_def split: list.splits)

lemma bus_drain [simp]: "bus (drain q w) = bus w"
  by (induction q arbitrary: w) simp_all

lemma bus_wake_receivers [simp]: "bus (wake_receivers ss w) = bus w"
  by (induction ss w rule: wake_receivers.induct) simp_all

lemma bus_append_each [simp]: "bus (snd (append_each q xs v w)) = bus w"
  by (induction xs arbitrary: v w) simp_all

lemma data_append_each [simp]: "dv_data (fst (append_each q xs v w)) = dv_data v @ xs"
  by (induction xs arbitrary: v w) (simp_all add: data_vector_append_data)

lemma bus_store_chan:
  "bus w = Some b \<Longrightarrow>
   bus (store_chan i p chan w) = Some (b\<lparr>channels := (channels b)[nat i := Some (p, chan)]\<rparr>)"
  by (simp add: store_chan_def)

lemma channel_at_bus_eq: "bus w' = bus w \<Longrightarrow> channel_at w' i = channel_at w i"
  by (simp add: channel_at_def)

lemma channel_at_store_chan:
  "channel_at w i = Some pc \<Longrightarrow> channel_at (store_chan i p chan w) i = Some (p, chan)"
  by (cases "bus w") (auto simp: channel_at_def store_chan_def split: if_splits)

lemma channel_at_wakeup_first [simp]:
  "channel_at (wakeup_queue_wakeup_first q w) i = channel_at w i"
  by (rule channel_at_bus_eq) simp

lemma channel_at_append_each [simp]:
  "channel_at (snd (append_each q xs v w)) i = channel_at w i"
  by (rule channel_at_bus_eq) simp

lemma global_error_wakeup_first [simp]:
  "global_error (wakeup_queue_wakeup_first q w) = global_error w"
  by (simp add: wakeup_queue_wakeup_first_def coro_wakeup_def split: list.splits)

lemma global_error_store_chan [simp]:
  "global_error (store_chan i p chan w) = global_error w"
  by (simp add: store_chan_def split: option.splits)

lemma global_error_append_each [simp]:
  "global_error (snd (append_each q xs v w)) = global_error w"
  by (induction xs arbitrary: v w) simp_all

subsection \<open>The capacity bound (C1)\<close>

lemma bounded_bus_eq: "bus w' = bus w \<Longrightarrow> bounded w' = bounded w"
  by (simp add: bounded_def)

lemma list_all_update: "list_all P xs \<Longrightarrow> P x \<Longrightarrow> list_all P (xs[i := x])"
  by (induction xs arbitrary: i) (auto split: nat.splits)

lemma bounded_store_chan:
  "bounded w \<Longrightarrow> length (dv_data (data chan)) \<le> unat (size_limit chan) \<Longrightarrow>
   bounded (store_chan i p chan w)"
  by (cases "bus w") (simp_all add: bounded_def store_chan_def list_all_update within_limit_def)

lemma channel_at_within:
  "bounded w \<Longrightarrow> channel_at w i = Some (p, chan) \<Longrightarrow>
   length (dv_data (data chan)) \<le> unat (size_limit chan)"
  apply (cases "bus w")
   apply (simp add: channel_at_def)
  apply (auto simp: channel_at_def bounded_def list_all_length within_limit_def split: if_splits)
  apply (drule_tac x = "nat i" in spec)
  apply auto
  done

lemma slot_of_channel_at:
  "slot_of w i = Some (Some pc) \<Longrightarrow> channel_at w i = Some pc"
  by (auto simp: slot_of_def channel_at_def read_slot_def split: option.splits if_splits)

lemma read_slot_channel_at:
  "bus w = Some b \<Longrightarrow> read_slot b i = Some (Some pc) \<Longrightarrow> channel_at w i = Some pc"
  by (auto simp: channel_at_def read_slot_def split: option.splits if_splits)

lemma bounded_rlist_del_entry: "bounded (rlist_del_entry c w) = bounded w"
  apply (cases "bus w")
  apply (simp_all add: bounded_def rlist_del_entry_def list_all_iff within_limit_def unlink_def)
  apply (auto split: option.splits simp: unlink_def)
  done

lemma bounded_errno_set [simp]: "bounded (coro_bus_errno_set e w) = bounded w"
  by (rule bounded_bus_eq) simp

lemma bounded_wakeup_first [simp]: "bounded (wakeup_queue_wakeup_first q w) = bounded w"
  by (rule bounded_bus_eq) simp

lemma bounded_drain [simp]: "bounded (drain q w) = bounded w"
  by (rule bounded_bus_eq) simp

lemma bounded_wake_receivers [simp]: "bounded (wake_receivers ss w) = bounded w"
  by (rule bounded_bus_eq) simp

lemma bounded_append_each [simp]: "bounded (snd (append_each q xs v w)) = bounded w"
  by (rule bounded_bus_eq) simp

lemma bounded_park_send:
  "bounded w \<Longrightarrow> channel_at w i = Some (p, chan) \<Longrightarrow> bounded (store_chan i p (park_send c chan) w)"
  by (rule bounded_store_chan) (auto simp: park_send_def dest: channel_at_within)

lemma bounded_park_recv:
  "bounded w \<Longrightarrow> channel_at w i = Some (p, chan) \<Longrightarrow> bounded (store_chan i p (park_recv c chan) w)"
  by (rule bounded_store_chan) (auto simp: park_recv_def dest: channel_at_within)

lemma bounded_append_room:
  "bounded w \<Longrightarrow> has_room chan \<Longrightarrow>
   bounded (store_chan i p (chan\<lparr>data := data_vector_append (data chan) x\<rparr>) w)"
  by (rule bounded_store_chan) (auto simp: has_room_def data_vector_append_data)

lemma bounded_send: "bounded w \<Longrightarrow> bounded (snd (coro_bus_send w c i x))"
  by (auto simp: coro_bus_send_def bounded_append_room bounded_park_send split: option.splits)

lemma bounded_try_send: "bounded w \<Longrightarrow> bounded (snd (coro_bus_try_send w i x))"
  by (auto simp: coro_bus_try_send_def bounded_append_room split: option.splits)

lemma bounded_send_resume: "bounded w \<Longrightarrow> bounded (snd (coro_bus_send_resume w c i x p))"
  by (auto simp: coro_bus_send_resume_def Let_def bounded_rlist_del_entry bounded_send
      split: option.splits)

lemma pop_first_data:
  "data_vector_pop_first v = Some (x, v') \<Longrightarrow> dv_data v = x # dv_data v'"
  by (cases "dv_data v")
    (auto simp: data_vector_pop_first_def data_vector_pop_first_many_def split: if_splits)

lemma bounded_pop:
  "bounded w \<Longrightarrow> channel_at w i = Some (p, chan) \<Longrightarrow>
   data_vector_pop_first (data chan) = Some (x, v') \<Longrightarrow>
   bounded (store_chan i p (chan\<lparr>data := v'\<rparr>) w)"
  by (rule bounded_store_chan) (auto dest!: channel_at_within pop_first_data)

lemma bounded_recv_wait:
  "bounded w \<Longrightarrow> channel_at w i = Some (p, chan) \<Longrightarrow> bounded (snd (recv_wait w c i p chan))"
  by (auto simp: recv_wait_def bounded_park_recv bounded_pop split: option.splits)

lemma bounded_recv_resume: "bounded w \<Longrightarrow> bounded (snd (coro_bus_recv_resume w c i p))"
  by (auto simp: coro_bus_recv_resume_def Let_def bounded_rlist_del_entry bounded_recv_wait
      slot_of_channel_at split: option.splits)

lemma bounded_try_recv: "bounded w \<Longrightarrow> bounded (snd (coro_bus_try_recv w i))"
  by (auto simp: coro_bus_try_recv_def bounded_pop read_slot_channel_at split: option.splits)

lemma bounded_recv: "bounded w \<Longrightarrow> bounded (snd (coro_bus_recv w c i))"
  by (auto simp: coro_bus_recv_def bounded_recv_wait read_slot_channel_at split: option.splits)

lemma bounded_open: "bounded w \<Longrightarrow> bounded (snd (coro_bus_channel_open w limit m r))"
  by (auto simp: coro_bus_channel_open_def Let_def bounded_def within_limit_def list_all_update
      split: option.splits)

lemma bounded_close: "bounded w \<Longrightarrow> bounded (coro_bus_channel_close w i)"
proof (cases "channel_at w i")
  case None
  then show "bounded w \<Longrightarrow> ?thesis" by (simp add: coro_bus_channel_close_def)
next
  case (Some pc)
  assume "bounded w"
  then show ?thesis using Some
    by (cases pc; cases "bus w")
      (auto simp: coro_bus_channel_close_def Let_def bounded_def list_all_update within_limit_def
        split: option.splits)
qed

lemma deliver_within:
  "within_limit s \<Longrightarrow> \<not> full_slot s \<Longrightarrow> within_limit (deliver x s)"
  by (auto simp: within_limit_def full_slot_def deliver_def has_room_def data_vector_append_data
      split: option.splits)

lemma bounded_commit:
  assumes "bus w = Some b" and "bounded w" and "\<not> list_ex full_slot (channels b)"
  shows "bounded (broadcast_commit x b w)"
proof -
  have "list_all within_limit (map (deliver x) (channels b))"
    using assms by (auto simp: bounded_def list_all_iff list_ex_iff deliver_within)
  then show ?thesis
    by (simp add: broadcast_commit_def bounded_def)
qed

lemma bounded_try_broadcast: "bounded w \<Longrightarrow> bounded (snd (coro_bus_try_broadcast w x))"
  by (auto simp: coro_bus_try_broadcast_def bounded_commit split: option.splits)

lemma next_blocked_channel_at:
  "next_blocked (drop k ss) k = Some (j, p, chan) \<Longrightarrow> j < length ss \<and> ss ! j = Some (p, chan)"
proof (induction "length ss - k" arbitrary: k)
  case 0
  then show ?case by simp
next
  case (Suc n)
  then have k: "k < length ss" by simp
  then have d: "drop k ss = ss ! k # drop (Suc k) ss"
    by (simp add: Cons_nth_drop_Suc)
  from Suc(2) have n: "n = length ss - Suc k" by simp
  show ?case
  proof (cases "ss ! k")
    case None
    with Suc(3) d have "next_blocked (drop (Suc k) ss) (Suc k) = Some (j, p, chan)" by simp
    with Suc(1)[OF n] show ?thesis by simp
  next
    case (Some pc)
    obtain q c where pc: "pc = (q, c)" by (cases pc)
    show ?thesis
    proof (cases "blocked c")
      case True
      with Suc(3) d Some pc k show ?thesis by simp
    next
      case False
      with Suc(3) d Some pc have "next_blocked (drop (Suc k) ss) (Suc k) = Some (j, p, chan)"
        by simp
      with Suc(1)[OF n] show ?thesis by simp
    qed
  qed
qed

lemma bounded_broadcast_park:
  assumes "bounded w" and "bus w = Some b"
    and "next_blocked (drop k (channels b)) k = Some (j, p, chan)"
  shows "bounded (store_chan (int j) p (park_send c chan) w)"
proof -
  from assms(3) have "j < length (channels b)" and "channels b ! j = Some (p, chan)"
    by (auto dest: next_blocked_channel_at)
  with assms(2) have "channel_at w (int j) = Some (p, chan)"
    by (auto simp: channel_at_def)
  with assms(1) show ?thesis by (rule bounded_park_send)
qed

lemma full_slot_blocked_or_receiver:
  "full_slot s \<Longrightarrow> blocked_slot s \<or> receiver_on_full s"
  by (auto simp: blocked_slot_def receiver_on_full_def full_slot_def blocked_def
      split: option.splits)

lemma full_slot_cases:
  "\<not> list_ex blocked_slot ss \<Longrightarrow> \<not> list_ex receiver_on_full ss \<Longrightarrow> \<not> list_ex full_slot ss"
  unfolding list_ex_iff using full_slot_blocked_or_receiver by blast

lemma bounded_broadcast:
  assumes "bounded w" and "\<not> receiver_waits_on_full w"
  shows "bounded (snd (coro_bus_broadcast w c x))"
proof (cases "bus w")
  case None
  with assms show ?thesis by (simp add: coro_bus_broadcast_def)
next
  case (Some b)
  show ?thesis
  proof (cases "list_ex blocked_slot (channels b)")
    case False
    with assms Some have "\<not> list_ex full_slot (channels b)"
      by (simp add: receiver_waits_on_full_def full_slot_cases)
    with assms Some have "bounded (broadcast_commit x b w)"
      by (simp add: bounded_commit)
    with assms Some False show ?thesis
      by (simp add: coro_bus_broadcast_def)
  next
    case True
    show ?thesis
    proof (cases "next_blocked (channels b) 0")
      case None
      with assms Some True show ?thesis by (simp add: coro_bus_broadcast_def)
    next
      case nb: (Some r)
      obtain j p chan where r: "r = (j, p, chan)" by (cases r)
      from nb r have "next_blocked (drop 0 (channels b)) 0 = Some (j, p, chan)" by simp
      with assms(1) Some have "bounded (store_chan (int j) p (park_send c chan) w)"
        by (rule bounded_broadcast_park)
      with assms Some True nb r show ?thesis by (simp add: coro_bus_broadcast_def)
    qed
  qed
qed

lemma receiver_on_full_unlink:
  "receiver_on_full (map_option (apsnd (unlink c)) s) \<Longrightarrow> receiver_on_full s"
  by (cases s) (auto simp: receiver_on_full_def unlink_def has_room_def)

lemma receiver_waits_rlist_del_entry:
  "receiver_waits_on_full (rlist_del_entry c w) \<Longrightarrow> receiver_waits_on_full w"
  by (cases "bus w")
    (auto simp: receiver_waits_on_full_def rlist_del_entry_def list_ex_iff
      dest: receiver_on_full_unlink)

lemma bounded_broadcast_resume:
  assumes "bounded w" and "\<not> receiver_waits_on_full w"
  shows "bounded (snd (coro_bus_broadcast_resume w c x i))"
proof -
  let ?w1 = "rlist_del_entry c w"
  have b1: "bounded ?w1" using assms(1) by (simp add: bounded_rlist_del_entry)
  have r1: "\<not> receiver_waits_on_full ?w1"
    using assms(2) receiver_waits_rlist_del_entry by blast
  show ?thesis
  proof (cases "bus ?w1")
    case None
    with b1 show ?thesis by (simp add: coro_bus_broadcast_resume_def Let_def)
  next
    case (Some b)
    show ?thesis
    proof (cases "next_blocked (drop (Suc i) (channels b)) (Suc i)")
      case None
      with Some bounded_broadcast[OF b1 r1] show ?thesis
        by (simp add: coro_bus_broadcast_resume_def Let_def)
    next
      case nb: (Some r)
      obtain j p chan where r: "r = (j, p, chan)" by (cases r)
      from b1 Some nb[unfolded r]
      have "bounded (store_chan (int j) p (park_send c chan) ?w1)"
        by (rule bounded_broadcast_park)
      with Some nb r show ?thesis
        by (simp add: coro_bus_broadcast_resume_def Let_def)
    qed
  qed
qed

lemma space_of_le:
  assumes "length (dv_data (data chan)) \<le> unat (size_limit chan)"
  shows "unat (space_of chan) \<le> unat (size_limit chan) - length (dv_data (data chan))"
proof -
  let ?n = "length (dv_data (data chan))"
  have lt: "?n < 2 ^ 64"
    using assms unsigned_less[of "size_limit chan", where 'a = nat] by simp
  then have n: "unat (word_of_nat ?n :: 64 word) = ?n"
    by (simp add: unat_of_nat)
  then have le: "(word_of_nat ?n :: 64 word) \<le> size_limit chan"
    using assms by (simp add: word_le_nat_alt)
  have "unat (size_limit chan - word_of_nat ?n) = unat (size_limit chan) - ?n"
    using le n by (simp add: unat_sub)
  moreover have "unat (space_of chan) \<le> unat (size_limit chan - word_of_nat ?n)"
    by (simp add: space_of_def unsigned_ucast_eq take_bit_nat_less_eq_self)
  ultimately show ?thesis by simp
qed

lemma bounded_batch_store:
  assumes "bounded w1" and w: "length (dv_data (data chan)) \<le> unat (size_limit chan)"
    and "to_send \<le> space_of chan"
  shows "bounded (store_chan i p
           (chan\<lparr>data := fst (append_each q (take (unat to_send) xs) (data chan) w0)\<rparr>) w1)"
proof (rule bounded_store_chan[OF assms(1)])
  from assms(3) have "unat to_send \<le> unat (space_of chan)"
    by (simp add: word_le_nat_alt)
  with space_of_le[OF w] w
  have "length (dv_data (data chan)) + unat to_send \<le> unat (size_limit chan)"
    by simp
  then show "length (dv_data (data (chan\<lparr>data := fst (append_each q (take (unat to_send) xs)
       (data chan) w0)\<rparr>))) \<le> unat (size_limit (chan\<lparr>data := fst (append_each q
       (take (unat to_send) xs) (data chan) w0)\<rparr>))"
    by simp
qed

lemma bounded_send_v_pass:
  assumes "bounded w" and "channel_at w i = Some (p, chan)"
  shows "bounded (snd (send_v_pass w c i xs p chan))"
proof (cases "space_of chan = 0")
  case True
  with assms show ?thesis by (simp add: send_v_pass_def bounded_park_send)
next
  case False
  define to_send where
    "to_send = (if word_of_nat (length xs) < space_of chan then word_of_nat (length xs) else space_of chan)"
  define w1 where "w1 = snd (append_each (recv_queue chan) (take (unat to_send) xs) (data chan) w)"
  have t: "to_send \<le> space_of chan" by (simp add: to_send_def less_imp_le)
  have b1: "bounded w1" using assms(1) by (simp add: w1_def)
  from assms have "length (dv_data (data chan)) \<le> unat (size_limit chan)"
    by (rule channel_at_within)
  from bounded_batch_store[OF b1 this t, of i p "recv_queue chan" xs w] False show ?thesis
    by (cases "(word_of_nat (length xs) :: 32 word) < space_of chan")
      (simp_all add: send_v_pass_def Let_def split_beta to_send_def w1_def)
qed

lemma bounded_send_v: "bounded w \<Longrightarrow> bounded (snd (coro_bus_send_v w c i d))"
  by (auto simp: coro_bus_send_v_def bounded_send_v_pass split: option.splits)

lemma bounded_send_v_resume: "bounded w \<Longrightarrow> bounded (snd (coro_bus_send_v_resume w c i xs p))"
  by (auto simp: coro_bus_send_v_resume_def Let_def bounded_rlist_del_entry bounded_send_v_pass
      slot_of_channel_at split: option.splits)

lemma bounded_try_send_v:
  assumes "bounded w"
  shows "bounded (snd (coro_bus_try_send_v w i d))"
proof (cases d)
  case None
  with assms show ?thesis by (simp add: coro_bus_try_send_v_def)
next
  case (Some xs)
  show ?thesis
  proof (cases "channel_at w i")
    case None
    with Some assms show ?thesis by (simp add: coro_bus_try_send_v_def)
  next
    case ch: (Some pc)
    obtain p chan where pc: "pc = (p, chan)" by (cases pc)
    define to_send where
      "to_send = (if word_of_nat (length xs) < space_of chan then word_of_nat (length xs) else space_of chan)"
    define w1 where "w1 = snd (append_each (recv_queue chan) (take (unat to_send) xs) (data chan) w)"
    have t: "to_send \<le> space_of chan" by (simp add: to_send_def less_imp_le)
    have b1: "bounded w1" using assms(1) by (simp add: w1_def)
    from assms ch pc have "length (dv_data (data chan)) \<le> unat (size_limit chan)"
      by (auto dest: channel_at_within)
    from bounded_batch_store[OF b1 this t, of i p "recv_queue chan" xs w] Some ch pc assms
    show ?thesis
      by (cases "(word_of_nat (length xs) :: 32 word) < space_of chan")
        (simp_all add: coro_bus_try_send_v_def Let_def split_beta to_send_def w1_def)
  qed
qed

lemma pop_each_data:
  "pop_each n v = Some (xs, v') \<Longrightarrow> dv_data v = xs @ dv_data v'"
proof (induction n arbitrary: v xs)
  case 0
  then show ?case by simp
next
  case (Suc n)
  then show ?case
    by (auto split: option.splits dest!: pop_first_data)
qed

lemma bounded_try_recv_v: "bounded w \<Longrightarrow> bounded (snd (coro_bus_try_recv_v w i ok cap))"
proof (cases "channel_at w i")
  case None
  then show "bounded w \<Longrightarrow> ?thesis" by (simp add: coro_bus_try_recv_v_def)
next
  case (Some pc)
  assume b: "bounded w"
  obtain p chan where pc: "pc = (p, chan)" by (cases pc)
  have "bounded (store_chan i p (chan\<lparr>data := v\<rparr>) w)"
    if "pop_each n (data chan) = Some (xs, v)" for n xs v
    using b
  proof (rule bounded_store_chan)
    from b Some pc have "length (dv_data (data chan)) \<le> unat (size_limit chan)"
      by (auto dest: channel_at_within)
    with pop_each_data[OF that]
    show "length (dv_data (data (chan\<lparr>data := v\<rparr>))) \<le> unat (size_limit (chan\<lparr>data := v\<rparr>))"
      by simp
  qed
  with b Some pc show ?thesis
    by (auto simp: coro_bus_try_recv_v_def Let_def split: option.splits)
qed

lemma bounded_recv_v_retry: "bounded w \<Longrightarrow> bounded (snd (recv_v_retry w c i cap))"
  by (auto simp: recv_v_retry_def Let_def bounded_park_recv split: option.splits)

lemma bounded_recv_v_pass: "bounded w \<Longrightarrow> bounded (snd (recv_v_pass w c i ok cap))"
proof -
  assume b: "bounded w"
  obtain res w1 where t: "coro_bus_try_recv_v w i ok cap = (res, w1)"
    by (cases "coro_bus_try_recv_v w i ok cap")
  with bounded_try_recv_v[OF b, of i ok cap] have b1: "bounded w1" by simp
  then show ?thesis using t
    by (cases res)
      (auto simp: recv_v_pass_def Let_def bounded_recv_v_retry split: option.splits)
qed

lemma bounded_recv_v: "bounded w \<Longrightarrow> bounded (snd (coro_bus_recv_v w c i ok cap))"
  by (simp add: coro_bus_recv_v_def bounded_recv_v_pass)

lemma bounded_recv_v_resume: "bounded w \<Longrightarrow> bounded (snd (coro_bus_recv_v_resume w c i cap))"
  by (simp add: coro_bus_recv_v_resume_def bounded_recv_v_pass bounded_rlist_del_entry)

lemma bounded_resume:
  assumes "bounded w" and "broadcasting (Resume c k) \<Longrightarrow> \<not> receiver_waits_on_full w"
  shows "bounded (snd (resume c k w))"
proof (cases k)
  case (In_send channel x p)
  with assms(1) show ?thesis by (simp add: bounded_send_resume)
next
  case (In_recv channel p)
  with assms(1) show ?thesis by (simp add: bounded_recv_resume)
next
  case (In_broadcast x i)
  with assms show ?thesis by (simp add: bounded_broadcast_resume)
next
  case (In_broadcast_yield x)
  with assms show ?thesis
    by (simp add: coro_bus_broadcast_yield_resume_def bounded_broadcast)
next
  case (In_send_v channel xs p)
  with assms(1) show ?thesis by (simp add: bounded_send_v_resume)
next
  case (In_recv_v channel capacity)
  with assms(1) show ?thesis by (simp add: bounded_recv_v_resume)
qed

lemma bounded_exec:
  assumes "bounded w" and "broadcasting st \<Longrightarrow> \<not> receiver_waits_on_full w"
  shows "bounded (exec st w)"
proof (cases st)
  case (Broadcast c x)
  with assms show ?thesis by (simp add: exec_def bounded_broadcast)
next
  case (Resume c k)
  with assms show ?thesis by (simp add: exec_def bounded_resume)
qed (use assms(1) in \<open>simp_all add: exec_def bounded_open bounded_close bounded_send
  bounded_try_send bounded_recv bounded_try_recv bounded_try_broadcast bounded_send_v
  bounded_try_send_v bounded_recv_v bounded_try_recv_v\<close>)

lemma bounded_run:
  "bounded w \<Longrightarrow> \<not> list_ex broadcasting sts \<Longrightarrow> bounded (run sts w)"
proof (induction sts arbitrary: w)
  case Nil
  then show ?case by simp
next
  case (Cons st sts)
  from Cons.prems have "bounded (exec st w)"
    by (intro bounded_exec) simp_all
  with Cons show ?case by simp
qed

lemmas bus_simps =
  run.simps exec_def coro_bus_new_def coro_bus_channel_open_def coro_bus_channel_close_def
  coro_bus_send_def coro_bus_send_resume_def coro_bus_try_send_def coro_bus_recv_def
  recv_wait_def coro_bus_recv_resume_def coro_bus_try_recv_def coro_bus_broadcast_def
  coro_bus_broadcast_resume_def coro_bus_broadcast_yield_resume_def coro_bus_try_broadcast_def
  send_v_pass_def coro_bus_send_v_def coro_bus_send_v_resume_def coro_bus_try_send_v_def
  coro_bus_try_recv_v_def recv_v_pass_def coro_bus_recv_v_def coro_bus_recv_v_resume_def
  channel_at_def slot_of_def read_slot_def store_chan_def park_send_def park_recv_def
  rlist_del_entry_def unlink_def coro_bus_errno_def coro_bus_errno_set_def coro_wakeup_def
  wakeup_queue_wakeup_first_def data_vector_append_def data_vector_append_many_def
  data_vector_pop_first_def data_vector_pop_first_many_def has_room_def blocked_def
  blocked_slot_def full_slot_def deliver_def broadcast_commit_def space_of_def
  bounded_def within_limit_def receiver_on_full_def receiver_waits_on_full_def Let_def
  returning_def recv_v_retry_def

lemma one_channel_eq:
  "one_channel =
     \<lparr>bus = Some \<lparr>channels = [Some (1, \<lparr>size_limit = 3, send_queue = [], recv_queue = [],
        data = \<lparr>dv_data = [], dv_capacity = 0\<rparr>\<rparr>)]\<rparr>,
      global_error = CORO_BUS_ERR_NONE, woken = {}\<rparr>"
  by (simp add: one_channel_def bus_simps)

lemma receiver_then_full_eq:
  "receiver_then_full =
     \<lparr>bus = Some \<lparr>channels = [Some (1, \<lparr>size_limit = 1, send_queue = [], recv_queue = [5],
        data = \<lparr>dv_data = [7], dv_capacity = 4\<rparr>\<rparr>)]\<rparr>,
      global_error = CORO_BUS_ERR_NONE, woken = {5}\<rparr>"
  by (simp add: receiver_then_full_def bus_simps)

text \<open>
  C1, as amended. If every channel holds at most \<^verbatim>\<open>size_limit\<close> messages, then it
  still does after any step of the system (a whole call of open, close, try_send,
  try_recv, try_broadcast, try_send_v or try_recv_v, or a segment of send, recv, send_v,
  recv_v or broadcast between two suspension points), unless the step belongs to the
  blocking \<^verbatim>\<open>coro_bus_broadcast\<close> and some full channel has a receiver in its queue.
\<close>

theorem capacity_bound_preserved:
  "bounded w \<Longrightarrow> \<not> (broadcasting st \<and> receiver_waits_on_full w) \<Longrightarrow> bounded (exec st w)"
  by (rule bounded_exec) auto

text \<open>
  The witness: \<^verbatim>\<open>coro_bus_send\<close> on the full channel of \<open>receiver_then_full\<close>
  parks and leaves the bound intact, and \<^verbatim>\<open>coro_bus_broadcast\<close> on \<open>one_channel\<close>,
  where no receiver waits, appends within the capacity.
\<close>

theorem capacity_bound_preserved_witness:
  "bounded receiver_then_full
   \<and> \<not> (broadcasting (Send 6 0 9) \<and> receiver_waits_on_full receiver_then_full)
   \<and> bounded (exec (Send 6 0 9) receiver_then_full)
   \<and> bounded one_channel
   \<and> \<not> (broadcasting (Broadcast 6 9) \<and> receiver_waits_on_full one_channel)
   \<and> bounded (exec (Broadcast 6 9) one_channel)"
  using capacity_bound_preserved [of receiver_then_full "Send 6 0 9"]
    capacity_bound_preserved [of one_channel "Broadcast 6 9"]
  by (simp add: receiver_then_full_eq one_channel_eq bus_simps)

text \<open>
  C1 as stated fails for \<^verbatim>\<open>coro_bus_broadcast\<close>: lines 352 and 374 count a full
  channel as ready when its queue of receivers is not empty, and line 363 then appends
  to it. On \<open>receiver_then_full\<close> the channel of capacity 1 holds \<open>[7, 9]\<close> afterwards.
\<close>

theorem broadcast_exceeds_capacity:
  "bounded receiver_then_full \<and> \<not> bounded (exec (Broadcast 6 9) receiver_then_full)"
  by (simp add: receiver_then_full_eq bus_simps)

subsection \<open>Closing with an invalid handle (C10)\<close>

lemma close_noop:
  "channel_at w channel = None \<Longrightarrow> coro_bus_channel_close w channel = w"
  by (simp add: coro_bus_channel_close_def)

text \<open>
  C10. \<^verbatim>\<open>coro_bus_channel_close\<close> called with a \<^verbatim>\<open>NULL\<close> bus, a negative handle, a
  handle past the slot array or the handle of an empty slot returns without changing
  anything: the bus, the channels, the last error and the set of woken coroutines are
  what they were.
\<close>

theorem close_invalid_handle_is_noop:
  "bus w = None \<or>
   (\<exists>b. bus w = Some b \<and>
      (channel < 0 \<or> int (length (channels b)) \<le> channel \<or> channels b ! nat channel = None))
   \<Longrightarrow> coro_bus_channel_close w channel = w"
  by (rule close_noop) (auto simp: channel_at_def)

text \<open>The witness: a \<^verbatim>\<open>NULL\<close> bus, the handles \<open>-1\<close> and 1 on a bus with one slot, and a slot closed before.\<close>

theorem close_invalid_handle_is_noop_witness:
  "coro_bus_channel_close (one_channel\<lparr>bus := None\<rparr>) 0 = one_channel\<lparr>bus := None\<rparr>
   \<and> coro_bus_channel_close one_channel (- 1) = one_channel
   \<and> coro_bus_channel_close one_channel 1 = one_channel
   \<and> coro_bus_channel_close (coro_bus_channel_close one_channel 0) 0
       = coro_bus_channel_close one_channel 0"
  using close_invalid_handle_is_noop [of "one_channel\<lparr>bus := None\<rparr>" 0]
    close_invalid_handle_is_noop [of one_channel "- 1"]
    close_invalid_handle_is_noop [of one_channel 1]
    close_invalid_handle_is_noop [of "coro_bus_channel_close one_channel 0" 0]
  by (simp add: one_channel_eq bus_simps)

subsection \<open>A call that would block changes nothing (C3)\<close>

lemma try_send_failed:
  "coro_bus_try_send w i x = (Fail, w') \<Longrightarrow> bus w' = bus w \<and> woken w' = woken w"
  by (auto simp: coro_bus_try_send_def coro_bus_errno_set_def split: option.splits if_splits)

lemma try_recv_failed:
  "coro_bus_try_recv w i = (Fail, w') \<Longrightarrow> bus w' = bus w \<and> woken w' = woken w"
  by (auto simp: coro_bus_try_recv_def coro_bus_errno_set_def split: option.splits if_splits)

lemma try_broadcast_failed:
  "coro_bus_try_broadcast w x = (Fail, w') \<Longrightarrow> bus w' = bus w \<and> woken w' = woken w"
  by (auto simp: coro_bus_try_broadcast_def coro_bus_errno_set_def split: option.splits if_splits)

lemma returning_Fail [simp]: "returning k x = Fail \<longleftrightarrow> k = - 1"
  by (simp add: returning_def)

lemma returning_Suspend [simp]: "returning k x \<noteq> Suspend f"
  by (simp add: returning_def)

lemma returning_Fault [simp]: "returning k x \<noteq> Fault"
  by (simp add: returning_def)

text \<open>A count below \<open>2 ^ 31\<close> is returned as it is.\<close>

lemma sint_small:
  fixes n :: "32 word"
  assumes "unat n < 2 ^ 31"
  shows "sint n = int (unat n)"
proof -
  have u: "int (unat n) = uint n" by simp
  from assms have "int (unat n) < int (2 ^ 31)" by (simp only: of_nat_less_iff)
  then have "int (unat n) < 2 ^ 31" by simp
  with u have lt: "uint n < 2 ^ 31" by simp
  have ge: "- (2 ^ 31) \<le> uint n"
    by (rule order_trans[of _ 0]) simp_all
  have "sint n = signed_take_bit 31 (uint n)"
    by (simp add: sint_uint)
  also have "\<dots> = uint n"
    using ge lt by (rule signed_take_bit_int_eq_self)
  finally show ?thesis using u by simp
qed

lemma sint_small_not_minus_one:
  fixes n :: "32 word"
  shows "unat n < 2 ^ 31 \<Longrightarrow> sint n \<noteq> - 1"
proof -
  assume "unat n < 2 ^ 31"
  then have "sint n = int (unat n)" by (rule sint_small)
  moreover have "0 \<le> int (unat n)" by (rule of_nat_0_le_iff)
  ultimately show ?thesis by linarith
qed

lemma count_small:
  "length xs < 2 ^ 31 \<Longrightarrow> unat (word_of_nat (length xs) :: 32 word) = length xs"
  by (simp add: unat_of_nat)

text \<open>The number of messages a pass sends is at most the count of the batch.\<close>

lemma to_send_small:
  fixes space :: "32 word"
  assumes "length xs < 2 ^ 31"
  shows "unat (if word_of_nat (length xs) < space then word_of_nat (length xs) else space)
         < 2 ^ 31"
proof (cases "(word_of_nat (length xs) :: 32 word) < space")
  case True
  with assms show ?thesis by (simp add: count_small)
next
  case False
  then have "space \<le> word_of_nat (length xs)" by simp
  then have "unat space \<le> unat (word_of_nat (length xs) :: 32 word)"
    by (simp add: word_le_nat_alt)
  with assms False show ?thesis by (simp add: count_small)
qed

lemma try_send_v_failed:
  assumes "coro_bus_try_send_v w i d = (Fail, w')" and "small_batch (Try_send_v i d)"
  shows "bus w' = bus w \<and> woken w' = woken w"
proof (cases d)
  case None
  with assms(1) show ?thesis
    by (auto simp: coro_bus_try_send_v_def coro_bus_errno_set_def)
next
  case (Some xs)
  with assms(2) have "length xs < 2 ^ 31" by simp
  from to_send_small[OF this] have
    "sint (if word_of_nat (length xs) < space then word_of_nat (length xs) else space) \<noteq> - 1"
    for space :: "32 word"
    by (rule sint_small_not_minus_one)
  with assms(1) Some show ?thesis
    by (auto simp: coro_bus_try_send_v_def coro_bus_errno_set_def Let_def split_beta
        split: option.splits if_splits)
qed

text \<open>The number of messages popped is at most the capacity of the buffer.\<close>

lemma recv_count_small:
  fixes capacity :: "32 word"
  assumes "unat capacity < 2 ^ 31"
  shows "unat (if unat capacity < m then capacity else word_of_nat m) < 2 ^ 31"
proof (cases "unat capacity < m")
  case True
  with assms show ?thesis by simp
next
  case False
  then have "m < 2 ^ 31" using assms by simp
  then have "unat (word_of_nat m :: 32 word) = m" by (simp add: unat_of_nat)
  with False \<open>m < 2 ^ 31\<close> show ?thesis by simp
qed

lemma try_recv_v_failed:
  assumes "coro_bus_try_recv_v w i ok cap = (Fail, w')" and "unat cap < 2 ^ 31"
  shows "bus w' = bus w \<and> woken w' = woken w"
proof (cases "channel_at w i")
  case None
  with assms(1) show ?thesis
    by (auto simp: coro_bus_try_recv_v_def coro_bus_errno_set_def split: if_splits)
next
  case (Some pc)
  obtain p chan where pc: "pc = (p, chan)" by (cases pc)
  define recv_count where
    "recv_count = (if unat cap < length (dv_data (data chan)) then cap
                   else (word_of_nat (length (dv_data (data chan))) :: 32 word))"
  have "sint recv_count \<noteq> - 1"
    unfolding recv_count_def using recv_count_small[OF assms(2)]
    by (rule sint_small_not_minus_one)
  with assms(1) Some pc show ?thesis
    by (auto simp: coro_bus_try_recv_v_def coro_bus_errno_set_def Let_def
        recv_count_def[symmetric] split: option.splits if_splits)
qed

lemma status_of_Failed: "status_of r = Failed \<longleftrightarrow> r = Fail"
  by (cases r) simp_all

lemma apfst_status_Failed:
  "apfst status_of r = (Failed, w') \<longleftrightarrow> r = (Fail, w')"
  by (cases r) (simp add: status_of_Failed)

text \<open>
  With a batch of fewer than \<open>2 ^ 31\<close> messages, a call of try_send, try_recv,
  try_broadcast, try_send_v or try_recv_v that returns \<open>-1\<close> has changed nothing in the
  bus, whatever the error.
\<close>

lemma nonblocking_failed:
  assumes "nonblocking st" and "small_batch st" and "perform st w = (Failed, w')"
  shows "bus w' = bus w \<and> woken w' = woken w"
proof (cases st)
  case (Try_send i x)
  with assms(3) show ?thesis by (simp add: apfst_status_Failed try_send_failed)
next
  case (Try_recv i)
  with assms(3) show ?thesis by (simp add: apfst_status_Failed try_recv_failed)
next
  case (Try_broadcast x)
  with assms(3) show ?thesis by (simp add: apfst_status_Failed try_broadcast_failed)
next
  case (Try_send_v i d)
  with assms(2,3) show ?thesis by (simp add: apfst_status_Failed try_send_v_failed)
next
  case (Try_recv_v i ok cap)
  with assms(2,3) show ?thesis by (simp add: apfst_status_Failed try_recv_v_failed)
qed (use assms(1) in simp_all)

lemma try_broadcast_full:
  assumes "bus w = Some b" and "list_ex full_slot (channels b)"
  shows "coro_bus_try_broadcast w x = (Fail, coro_bus_errno_set CORO_BUS_ERR_WOULD_BLOCK w)"
proof -
  from assms(2) have "channels b \<noteq> []" by auto
  moreover from assms(2) have "list_ex (\<lambda>s. s \<noteq> None) (channels b)"
    by (fastforce simp: list_ex_iff full_slot_def split: option.splits)
  ultimately show ?thesis using assms
    by (simp add: coro_bus_try_broadcast_def)
qed

lemma two_channels_eq:
  "two_channels =
     \<lparr>bus = Some \<lparr>channels =
        [Some (1, \<lparr>size_limit = 2, send_queue = [], recv_queue = [],
                   data = \<lparr>dv_data = [], dv_capacity = 0\<rparr>\<rparr>),
         Some (2, \<lparr>size_limit = 1, send_queue = [], recv_queue = [],
                   data = \<lparr>dv_data = [8], dv_capacity = 4\<rparr>\<rparr>)]\<rparr>,
      global_error = CORO_BUS_ERR_NONE, woken = {}\<rparr>"
  by (simp add: two_channels_def bus_simps)

text \<open>
  The scenario of the specification: channel A of capacity 2 is empty, channel B of
  capacity 1 holds one message, and try_broadcast fails without a write.
\<close>

lemma try_broadcast_two_channels:
  "coro_bus_try_broadcast two_channels 4
     = (Fail, two_channels\<lparr>global_error := CORO_BUS_ERR_WOULD_BLOCK\<rparr>)"
  by (simp add: two_channels_eq bus_simps)

text \<open>
  What a pass of \<^verbatim>\<open>coro_bus_try_send_v\<close> and of \<^verbatim>\<open>coro_bus_send_v\<close> does on a
  channel with room: the return value, the last error and the queue.
\<close>

lemma try_send_v_progress:
  assumes "channel_at w i = Some (p, chan)" and "space_of chan \<noteq> 0"
    and "to_send = (if word_of_nat (length xs) < space_of chan
                    then word_of_nat (length xs) else space_of chan)"
  shows "fst (coro_bus_try_send_v w i (Some xs)) = returning (sint to_send) (sint to_send)"
    and "global_error (snd (coro_bus_try_send_v w i (Some xs))) = global_error w"
    and "queue_at (snd (coro_bus_try_send_v w i (Some xs))) i
         = Some (dv_data (data chan) @ take (unat to_send) xs)"
  using assms
  by (simp_all add: coro_bus_try_send_v_def Let_def split_beta queue_at_def
      channel_at_store_chan)

lemma send_v_progress:
  assumes "channel_at w i = Some (p, chan)" and "space_of chan \<noteq> 0"
    and "to_send = (if word_of_nat (length xs) < space_of chan
                    then word_of_nat (length xs) else space_of chan)"
  shows "fst (coro_bus_send_v w c i (Some xs)) = returning (sint to_send) (sint to_send)"
    and "global_error (snd (coro_bus_send_v w c i (Some xs))) = global_error w"
    and "queue_at (snd (coro_bus_send_v w c i (Some xs))) i
         = Some (dv_data (data chan) @ take (unat to_send) xs)"
  using assms
  by (simp_all add: coro_bus_send_v_def send_v_pass_def Let_def split_beta queue_at_def
      channel_at_store_chan)

lemma stale_would_block_eq:
  "stale_would_block =
     \<lparr>bus = Some \<lparr>channels = [Some (1, \<lparr>size_limit = 4294967295, send_queue = [],
        recv_queue = [], data = \<lparr>dv_data = [], dv_capacity = 0\<rparr>\<rparr>)]\<rparr>,
      global_error = CORO_BUS_ERR_WOULD_BLOCK, woken = {}\<rparr>"
  by (simp add: stale_would_block_def bus_simps)

lemma stale_would_block_channel:
  "channel_at stale_would_block 0
     = Some (1, \<lparr>size_limit = 4294967295, send_queue = [], recv_queue = [],
                 data = \<lparr>dv_data = [], dv_capacity = 0\<rparr>\<rparr>)"
  by (simp add: stale_would_block_eq channel_at_def)

lemma stale_would_block_space:
  "space_of \<lparr>size_limit = 4294967295, send_queue = [], recv_queue = [],
             data = \<lparr>dv_data = [], dv_capacity = 0\<rparr>\<rparr> = 4294967295"
  by (simp add: space_of_def)

lemma length_full_batch: "length full_batch = 4294967295"
  by (simp add: full_batch_def)

lemma length_half_batch: "length half_batch = 2147483648"
  by (simp add: half_batch_def)

text \<open>
  C3 does not hold for \<^verbatim>\<open>coro_bus_try_send_v\<close> and \<^verbatim>\<open>coro_bus_try_recv_v\<close>:
  they return the \<^verbatim>\<open>unsigned\<close> count through \<^verbatim>\<open>int\<close> (lines 515 and 569) and leave
  the last error as it was. In \<open>stale_would_block\<close> a \<^verbatim>\<open>coro_bus_try_recv\<close> on the
  empty channel has failed with \<^verbatim>\<open>CORO_BUS_ERR_WOULD_BLOCK\<close>; sending the
  \<open>2 ^ 32 - 1\<close> messages of \<open>full_batch\<close> with \<^verbatim>\<open>coro_bus_try_send_v\<close> then returns
  \<open>-1\<close> with that error still in place, after all of them have been appended to the
  queue. A batch of \<open>2 ^ 31\<close> messages returns \<open>- 2 ^ 31\<close>. For batches of fewer than
  \<open>2 ^ 31\<close> messages, and for try_send, try_recv and try_broadcast, the claim is
  \<open>nonblocking_failed\<close> above, and its particular case is \<open>try_broadcast_full\<close>.
\<close>

theorem try_send_v_fails_after_appending:
  "perform (Try_recv 0) (run [Open 4294967295 (Some 1) True] coro_bus_new)
     = (Failed, stale_would_block)
   \<and> queue_at stale_would_block 0 = Some []
   \<and> nonblocking (Try_send_v 0 (Some full_batch))
   \<and> length full_batch = 4294967295
   \<and> fst (perform (Try_send_v 0 (Some full_batch)) stale_would_block) = Failed
   \<and> global_error (snd (perform (Try_send_v 0 (Some full_batch)) stale_would_block))
       = CORO_BUS_ERR_WOULD_BLOCK
   \<and> queue_at (snd (perform (Try_send_v 0 (Some full_batch)) stale_would_block)) 0
       = Some full_batch
   \<and> fst (coro_bus_try_send_v stale_would_block 0 (Some half_batch)) = Ok (- 2147483648)"
proof -
  have a: "perform (Try_recv 0) (run [Open 4294967295 (Some 1) True] coro_bus_new)
     = (Failed, stale_would_block)"
    by (simp add: stale_would_block_eq bus_simps)
  have b: "queue_at stale_would_block 0 = Some []"
    by (simp add: queue_at_def stale_would_block_channel)
  have e: "global_error stale_would_block = CORO_BUS_ERR_WOULD_BLOCK"
    by (simp add: stale_would_block_eq)
  have t: "(4294967295 :: 32 word)
      = (if word_of_nat (length full_batch) < space_of \<lparr>size_limit = 4294967295,
              send_queue = [], recv_queue = [], data = \<lparr>dv_data = [], dv_capacity = 0\<rparr>\<rparr>
         then word_of_nat (length full_batch)
         else space_of \<lparr>size_limit = 4294967295, send_queue = [], recv_queue = [],
              data = \<lparr>dv_data = [], dv_capacity = 0\<rparr>\<rparr>)"
    by (simp add: stale_would_block_space length_full_batch)
  have h: "(2147483648 :: 32 word)
      = (if word_of_nat (length half_batch) < space_of \<lparr>size_limit = 4294967295,
              send_queue = [], recv_queue = [], data = \<lparr>dv_data = [], dv_capacity = 0\<rparr>\<rparr>
         then word_of_nat (length half_batch)
         else space_of \<lparr>size_limit = 4294967295, send_queue = [], recv_queue = [],
              data = \<lparr>dv_data = [], dv_capacity = 0\<rparr>\<rparr>)"
    by (simp add: stale_would_block_space length_half_batch)
  have nz: "space_of \<lparr>size_limit = 4294967295, send_queue = [], recv_queue = [],
              data = \<lparr>dv_data = [], dv_capacity = 0\<rparr>\<rparr> \<noteq> 0"
    by (simp add: stale_would_block_space)
  note p = try_send_v_progress [OF stale_would_block_channel nz t]
  note q = try_send_v_progress [OF stale_would_block_channel nz h]
  have c: "fst (perform (Try_send_v 0 (Some full_batch)) stale_would_block) = Failed"
    using p(1) by (simp add: returning_def)
  have d: "global_error (snd (perform (Try_send_v 0 (Some full_batch)) stale_would_block))
       = CORO_BUS_ERR_WOULD_BLOCK"
    using p(2) e by simp
  have f: "queue_at (snd (perform (Try_send_v 0 (Some full_batch)) stale_would_block)) 0
       = Some full_batch"
    using p(3) by (simp add: length_full_batch)
  have g: "fst (coro_bus_try_send_v stale_would_block 0 (Some half_batch)) = Ok (- 2147483648)"
    using q(1) by (simp add: returning_def)
  from a b c d f g length_full_batch show ?thesis by simp
qed

subsection \<open>Blocking calls park, the others return (C9)\<close>

lemma send_failed:
  "coro_bus_send w c i x = (Fail, w') \<Longrightarrow> global_error w' = CORO_BUS_ERR_NO_CHANNEL"
  by (auto simp: coro_bus_send_def coro_bus_errno_set_def split: option.splits if_splits)

lemma send_resume_failed:
  "coro_bus_send_resume w c i x p = (Fail, w') \<Longrightarrow> global_error w' = CORO_BUS_ERR_NO_CHANNEL"
  by (auto simp: coro_bus_send_resume_def Let_def coro_bus_errno_set_def
      split: option.splits if_splits dest: send_failed)

lemma recv_wait_failed: "recv_wait w c i p chan \<noteq> (Fail, w')"
  by (auto simp: recv_wait_def split: option.splits)

lemma recv_failed:
  "coro_bus_recv w c i = (Fail, w') \<Longrightarrow> global_error w' = CORO_BUS_ERR_NO_CHANNEL"
  by (auto simp: coro_bus_recv_def coro_bus_errno_set_def recv_wait_failed
      split: option.splits if_splits)

lemma recv_resume_failed:
  "coro_bus_recv_resume w c i p = (Fail, w') \<Longrightarrow> global_error w' = CORO_BUS_ERR_NO_CHANNEL"
  by (auto simp: coro_bus_recv_resume_def Let_def coro_bus_errno_set_def recv_wait_failed
      split: option.splits if_splits)

lemma broadcast_failed:
  "coro_bus_broadcast w c x = (Fail, w') \<Longrightarrow> global_error w' = CORO_BUS_ERR_NO_CHANNEL"
  by (auto simp: coro_bus_broadcast_def coro_bus_errno_set_def split: option.splits if_splits)

lemma broadcast_resume_failed:
  "coro_bus_broadcast_resume w c x i = (Fail, w') \<Longrightarrow>
   global_error w' = CORO_BUS_ERR_NO_CHANNEL"
  by (auto simp: coro_bus_broadcast_resume_def Let_def split: option.splits
      dest: broadcast_failed)

lemma send_v_pass_failed:
  assumes "length xs < 2 ^ 31"
  shows "send_v_pass w c i xs p chan \<noteq> (Fail, w')"
proof -
  from to_send_small[OF assms] have
    "sint (if word_of_nat (length xs) < space_of chan then word_of_nat (length xs)
           else space_of chan) \<noteq> - 1"
    by (rule sint_small_not_minus_one)
  then show ?thesis
    by (auto simp: send_v_pass_def Let_def split_beta)
qed

lemma send_v_failed:
  "coro_bus_send_v w c i d = (Fail, w') \<Longrightarrow> small_batch (Send_v c i d) \<Longrightarrow>
   global_error w' = CORO_BUS_ERR_NO_CHANNEL"
  by (cases d)
    (auto simp: coro_bus_send_v_def coro_bus_errno_set_def send_v_pass_failed
      split: option.splits)

lemma send_v_resume_failed:
  "coro_bus_send_v_resume w c i xs p = (Fail, w') \<Longrightarrow> length xs < 2 ^ 31 \<Longrightarrow>
   global_error w' = CORO_BUS_ERR_NO_CHANNEL"
  by (auto simp: coro_bus_send_v_resume_def Let_def coro_bus_errno_set_def send_v_pass_failed
      split: option.splits if_splits)

lemma recv_v_retry_failed:
  "recv_v_retry w c i cap = (Fail, w') \<Longrightarrow> global_error w' \<noteq> CORO_BUS_ERR_WOULD_BLOCK"
  by (auto simp: recv_v_retry_def Let_def coro_bus_errno_def split: option.splits if_splits)

lemma recv_v_pass_failed:
  "recv_v_pass w c i ok cap = (Fail, w') \<Longrightarrow> global_error w' \<noteq> CORO_BUS_ERR_WOULD_BLOCK"
  by (auto simp: recv_v_pass_def Let_def
      split: prod.splits outcome.splits option.splits if_splits dest: recv_v_retry_failed)

lemma recv_v_failed:
  "coro_bus_recv_v w c i ok cap = (Fail, w') \<Longrightarrow> global_error w' \<noteq> CORO_BUS_ERR_WOULD_BLOCK"
  by (auto simp: coro_bus_recv_v_def coro_bus_errno_set_def split: if_splits
      dest: recv_v_pass_failed)

lemma resume_failed:
  "resume c k w = (Failed, w') \<Longrightarrow> small_batch (Resume c k) \<Longrightarrow>
   global_error w' \<noteq> CORO_BUS_ERR_WOULD_BLOCK"
proof (cases k)
  case (In_send i x p)
  then show "resume c k w = (Failed, w') \<Longrightarrow> ?thesis"
    by (auto simp: apfst_status_Failed dest: send_resume_failed)
next
  case (In_recv i p)
  then show "resume c k w = (Failed, w') \<Longrightarrow> ?thesis"
    by (auto simp: apfst_status_Failed dest: recv_resume_failed)
next
  case (In_broadcast x i)
  then show "resume c k w = (Failed, w') \<Longrightarrow> ?thesis"
    by (auto simp: apfst_status_Failed dest: broadcast_resume_failed)
next
  case (In_broadcast_yield x)
  then show "resume c k w = (Failed, w') \<Longrightarrow> ?thesis"
    by (auto simp: apfst_status_Failed coro_bus_broadcast_yield_resume_def
        dest: broadcast_failed)
next
  case (In_send_v i xs p)
  then show "resume c k w = (Failed, w') \<Longrightarrow> small_batch (Resume c k) \<Longrightarrow> ?thesis"
    by (auto simp: apfst_status_Failed dest: send_v_resume_failed)
next
  case (In_recv_v i cap)
  then show "resume c k w = (Failed, w') \<Longrightarrow> ?thesis"
    by (auto simp: apfst_status_Failed coro_bus_recv_v_resume_def dest: recv_v_pass_failed)
qed

text \<open>
  With a batch of fewer than \<open>2 ^ 31\<close> messages, a segment of a blocking call that returns
  \<open>-1\<close> does not leave \<^verbatim>\<open>CORO_BUS_ERR_WOULD_BLOCK\<close> as the last error.
\<close>

lemma blocking_failed:
  assumes "blocking st" and "small_batch st" and "perform st w = (Failed, w')"
  shows "global_error w' \<noteq> CORO_BUS_ERR_WOULD_BLOCK"
proof (cases st)
  case (Send c i x)
  with assms(3) show ?thesis by (auto simp: apfst_status_Failed dest: send_failed)
next
  case (Recv c i)
  with assms(3) show ?thesis by (auto simp: apfst_status_Failed dest: recv_failed)
next
  case (Broadcast c x)
  with assms(3) show ?thesis by (auto simp: apfst_status_Failed dest: broadcast_failed)
next
  case (Send_v c i d)
  with assms(2,3) show ?thesis by (auto simp: apfst_status_Failed dest: send_v_failed)
next
  case (Recv_v c i ok cap)
  with assms(3) show ?thesis by (auto simp: apfst_status_Failed dest: recv_v_failed)
next
  case (Resume c k)
  with assms(2,3) show ?thesis by (auto dest: resume_failed)
qed (use assms(1) in simp_all)

lemma status_of_Suspended: "status_of r = Suspended k \<longleftrightarrow> r = Suspend k"
  by (cases r) simp_all

lemma try_send_returns: "fst (coro_bus_try_send w i x) \<noteq> Suspend k"
  by (simp add: coro_bus_try_send_def split: option.splits prod.splits)

lemma try_recv_returns: "fst (coro_bus_try_recv w i) \<noteq> Suspend k"
  by (simp add: coro_bus_try_recv_def split: option.splits prod.splits)

lemma try_broadcast_returns: "fst (coro_bus_try_broadcast w x) \<noteq> Suspend k"
  by (simp add: coro_bus_try_broadcast_def split: option.splits)

lemma try_send_v_returns: "fst (coro_bus_try_send_v w i d) \<noteq> Suspend k"
  by (simp add: coro_bus_try_send_v_def Let_def split_beta split: option.splits prod.splits)

lemma try_recv_v_returns: "fst (coro_bus_try_recv_v w i ok cap) \<noteq> Suspend k"
  by (simp add: coro_bus_try_recv_v_def Let_def split: option.splits prod.splits)

text \<open>A call of try_send, try_recv, try_broadcast, try_send_v or try_recv_v never suspends.\<close>

lemma nonblocking_returns:
  "nonblocking st \<Longrightarrow> fst (perform st w) \<noteq> Suspended k"
  by (cases st)
    (simp_all add: status_of_Suspended try_send_returns try_recv_returns
      try_broadcast_returns try_send_v_returns try_recv_v_returns)

text \<open>
  Where the call that does not block fails with \<^verbatim>\<open>CORO_BUS_ERR_WOULD_BLOCK\<close>, the
  blocking call parks: the running coroutine goes to the tail of the wait queue and the
  call suspends.
\<close>

lemma send_parks:
  assumes "channel_at w i = Some (p, chan)" and "\<not> has_room chan"
  shows "coro_bus_send w c i x
         = (Suspend (In_send i x p), store_chan i p (park_send c chan) w)"
    and "coro_bus_try_send w i x = (Fail, coro_bus_errno_set CORO_BUS_ERR_WOULD_BLOCK w)"
  using assms by (simp_all add: coro_bus_send_def coro_bus_try_send_def)

lemma channel_at_read_slot:
  "channel_at w i = Some pc \<Longrightarrow>
   \<exists>b. bus w = Some b \<and> channels b \<noteq> [] \<and> read_slot b i = Some (Some pc)"
  by (auto simp: channel_at_def read_slot_def split: option.splits if_splits)

lemma recv_parks:
  assumes "channel_at w i = Some (p, chan)" and "dv_data (data chan) = []"
  shows "coro_bus_recv w c i
         = (Suspend (In_recv i p), store_chan i p (park_recv c chan) w)"
    and "coro_bus_try_recv w i = (Fail, coro_bus_errno_set CORO_BUS_ERR_WOULD_BLOCK w)"
  using channel_at_read_slot[OF assms(1)] assms(2)
  by (auto simp: coro_bus_recv_def coro_bus_try_recv_def recv_wait_def)

lemma send_v_parks:
  assumes "channel_at w i = Some (p, chan)" and "space_of chan = 0"
  shows "coro_bus_send_v w c i (Some xs)
         = (Suspend (In_send_v i xs p), store_chan i p (park_send c chan) w)"
    and "coro_bus_try_send_v w i (Some xs)
         = (Fail, coro_bus_errno_set CORO_BUS_ERR_WOULD_BLOCK w)"
  using assms
  by (simp_all add: coro_bus_send_v_def send_v_pass_def coro_bus_try_send_v_def)

lemma channel_at_errno_set [simp]:
  "channel_at (coro_bus_errno_set e w) i = channel_at w i"
  by (rule channel_at_bus_eq) simp

lemma recv_v_parks:
  assumes "channel_at w i = Some (p, chan)" and "dv_data (data chan) = []"
  shows "coro_bus_recv_v w c i True cap
         = (Suspend (In_recv_v i cap),
            store_chan i p (park_recv c chan)
              (coro_bus_errno_set CORO_BUS_ERR_NONE
                 (coro_bus_errno_set CORO_BUS_ERR_WOULD_BLOCK w)))"
    and "coro_bus_try_recv_v w i True cap
         = (Fail, coro_bus_errno_set CORO_BUS_ERR_WOULD_BLOCK w)"
proof -
  show t: "coro_bus_try_recv_v w i True cap
         = (Fail, coro_bus_errno_set CORO_BUS_ERR_WOULD_BLOCK w)"
    using assms by (simp add: coro_bus_try_recv_v_def)
  have "coro_bus_errno (coro_bus_errno_set CORO_BUS_ERR_WOULD_BLOCK w)
        = CORO_BUS_ERR_WOULD_BLOCK"
    by (simp add: coro_bus_errno_def coro_bus_errno_set_def)
  with assms(1) t show "coro_bus_recv_v w c i True cap
         = (Suspend (In_recv_v i cap),
            store_chan i p (park_recv c chan)
              (coro_bus_errno_set CORO_BUS_ERR_NONE
                 (coro_bus_errno_set CORO_BUS_ERR_WOULD_BLOCK w)))"
    by (simp add: coro_bus_recv_v_def recv_v_pass_def recv_v_retry_def Let_def)
qed

lemma next_blocked_finds:
  "list_ex blocked_slot ss \<Longrightarrow>
   \<exists>j p chan. next_blocked ss k = Some (j, p, chan) \<and> blocked chan"
  by (induction ss k rule: next_blocked.induct) (auto simp: blocked_slot_def)

lemma broadcast_parks:
  assumes "bus w = Some b" and "list_ex blocked_slot (channels b)"
  shows "\<exists>j p chan. j < length (channels b) \<and> channels b ! j = Some (p, chan) \<and> blocked chan
           \<and> coro_bus_broadcast w c x
               = (Suspend (In_broadcast x j), store_chan (int j) p (park_send c chan) w)"
proof -
  from next_blocked_finds[OF assms(2), of 0]
  obtain j p chan where nb: "next_blocked (channels b) 0 = Some (j, p, chan)"
    and bl: "blocked chan"
    by blast
  from nb have "next_blocked (drop 0 (channels b)) 0 = Some (j, p, chan)" by simp
  then have j: "j < length (channels b) \<and> channels b ! j = Some (p, chan)"
    by (rule next_blocked_channel_at)
  from assms(2) have ne: "channels b \<noteq> []" by auto
  from assms(2) have ex: "list_ex (\<lambda>s. s \<noteq> None) (channels b)"
    by (fastforce simp: list_ex_iff blocked_slot_def split: option.splits)
  from assms ne ex nb have "coro_bus_broadcast w c x
      = (Suspend (In_broadcast x j), store_chan (int j) p (park_send c chan) w)"
    by (simp add: coro_bus_broadcast_def)
  with j bl show ?thesis by blast
qed

text \<open>
  A resumed \<^verbatim>\<open>coro_bus_send_v\<close> whose channel is still the object it parked on makes
  the next pass on it; \<^verbatim>\<open>coro_bus_recv_v\<close> resumed tries again.
\<close>

lemma send_v_resume_same_object:
  assumes "slot_of w i = Some (Some (p, chan))"
  shows "coro_bus_send_v_resume w c i xs p
         = send_v_pass (rlist_del_entry c w) c i xs p (unlink c chan)"
proof -
  have "slot_of (rlist_del_entry c w) i = Some (Some (p, unlink c chan))"
  proof (cases "bus w")
    case None
    with assms show ?thesis by (simp add: slot_of_def)
  next
    case (Some b)
    with assms show ?thesis
      by (auto simp: slot_of_def rlist_del_entry_def read_slot_def split: if_splits)
  qed
  then show ?thesis by (simp add: coro_bus_send_v_resume_def Let_def)
qed

lemma send_v_resume_other_object:
  assumes "slot_of w i = Some s" and "\<And>chan. s \<noteq> Some (p, chan)"
  shows "coro_bus_send_v_resume w c i xs p
         = (Fail, coro_bus_errno_set CORO_BUS_ERR_NO_CHANNEL (rlist_del_entry c w))"
proof -
  obtain b where b: "bus w = Some b" and i: "0 \<le> i" "i < int (length (channels b))"
    and s: "channels b ! nat i = s"
    using assms(1) by (auto simp: slot_of_def read_slot_def split: option.splits if_splits)
  then have r: "slot_of (rlist_del_entry c w) i = Some (map_option (apsnd (unlink c)) s)"
    by (auto simp: slot_of_def rlist_del_entry_def read_slot_def)
  show ?thesis
  proof (cases s)
    case None
    with r show ?thesis by (simp add: coro_bus_send_v_resume_def Let_def)
  next
    case (Some qc)
    obtain q chan where "qc = (q, chan)" by (cases qc)
    with Some assms(2)[of chan] have "q \<noteq> p" by auto
    with Some \<open>qc = (q, chan)\<close> r show ?thesis
      by (simp add: coro_bus_send_v_resume_def Let_def)
  qed
qed

text \<open>What \<^verbatim>\<open>coro_bus_recv_v\<close> returns from a channel that is not empty.\<close>

lemma pop_each_take:
  "n \<le> length (dv_data v) \<Longrightarrow>
   pop_each n v = Some (take n (dv_data v), v\<lparr>dv_data := drop n (dv_data v)\<rparr>)"
proof (induction n arbitrary: v)
  case 0
  then show ?case by simp
next
  case (Suc n)
  then obtain x rest where d: "dv_data v = x # rest" by (cases "dv_data v") auto
  then have pop: "data_vector_pop_first v = Some (x, v\<lparr>dv_data := rest\<rparr>)"
    by (simp add: data_vector_pop_first_def data_vector_pop_first_many_def)
  from Suc.prems d have "n \<le> length (dv_data (v\<lparr>dv_data := rest\<rparr>))" by simp
  from Suc.IH[OF this] pop d show ?case by simp
qed

lemma recv_v_takes:
  assumes ch: "channel_at w i = Some (p, chan)" and ne: "dv_data (data chan) \<noteq> []"
    and small: "unat cap < 2 ^ 31"
    and n: "n = min (unat cap) (length (dv_data (data chan)))"
  shows "fst (coro_bus_recv_v w c i True cap) = Ok (int n, take n (dv_data (data chan)))"
    and "queue_at (snd (coro_bus_recv_v w c i True cap)) i = Some (drop n (dv_data (data chan)))"
    and "fst (coro_bus_try_recv_v w i True cap) = Ok (int n, take n (dv_data (data chan)))"
proof -
  let ?q = "dv_data (data chan)"
  define recv_count where
    "recv_count = (if unat cap < length ?q then cap else (word_of_nat (length ?q) :: 32 word))"
  have u: "unat recv_count = n"
  proof (cases "unat cap < length ?q")
    case True
    then show ?thesis by (simp add: recv_count_def n)
  next
    case False
    then have "length ?q < 2 ^ 32" using small by simp
    then have "unat (word_of_nat (length ?q) :: 32 word) = length ?q"
      by (simp add: unat_of_nat)
    with False show ?thesis by (simp add: recv_count_def n)
  qed
  have "unat recv_count < 2 ^ 31"
    unfolding recv_count_def using small by (rule recv_count_small)
  then have s: "sint recv_count = int n" using u by (simp add: sint_small)
  have le: "n \<le> length ?q" by (simp add: n)
  let ?v = "(data chan)\<lparr>dv_data := drop n ?q\<rparr>"
  let ?w1 = "wakeup_queue_wakeup_first (send_queue chan) (store_chan i p (chan\<lparr>data := ?v\<rparr>) w)"
  have t: "coro_bus_try_recv_v w i True cap = (Ok (int n, take n ?q), ?w1)"
    using ch ne pop_each_take[OF le] u s
    by (simp add: coro_bus_try_recv_v_def Let_def recv_count_def[symmetric] returning_def)
  then show "fst (coro_bus_try_recv_v w i True cap) = Ok (int n, take n ?q)" by simp
  have c1: "channel_at ?w1 i = Some (p, chan\<lparr>data := ?v\<rparr>)"
    using ch by (simp add: channel_at_store_chan)
  let ?w2 = "if dv_data (data (chan\<lparr>data := ?v\<rparr>)) \<noteq> []
             then wakeup_queue_wakeup_first (recv_queue (chan\<lparr>data := ?v\<rparr>)) ?w1 else ?w1"
  have r: "coro_bus_recv_v w c i True cap = (Ok (int n, take n ?q), ?w2)"
    using ch t c1 by (simp add: coro_bus_recv_v_def recv_v_pass_def)
  then show "fst (coro_bus_recv_v w c i True cap) = Ok (int n, take n ?q)" by simp
  have "channel_at ?w2 i = channel_at ?w1 i"
    by simp
  with c1 have "channel_at ?w2 i = Some (p, chan\<lparr>data := ?v\<rparr>)"
    by (simp only:)
  with r show "queue_at (snd (coro_bus_recv_v w c i True cap)) i = Some (drop n ?q)"
    by (simp add: queue_at_def)
qed

text \<open>
  C9 does not hold for \<^verbatim>\<open>coro_bus_send_v\<close>: line 479 returns the \<^verbatim>\<open>unsigned\<close>
  count through \<^verbatim>\<open>int\<close> and leaves the last error as it was. In
  \<open>stale_would_block\<close>, where an earlier \<^verbatim>\<open>coro_bus_try_recv\<close> has left
  \<^verbatim>\<open>CORO_BUS_ERR_WOULD_BLOCK\<close>, the blocking call with the \<open>2 ^ 32 - 1\<close> messages of
  \<open>full_batch\<close> appends them all and returns \<open>-1\<close> with that error in place. With
  batches of fewer than \<open>2 ^ 31\<close> messages the claim holds: \<open>blocking_failed\<close> and
  \<open>nonblocking_returns\<close> above, and the blocking calls park where the others would
  block (\<open>send_parks\<close>, \<open>recv_parks\<close>, \<open>send_v_parks\<close>, \<open>recv_v_parks\<close>,
  \<open>broadcast_parks\<close>).
\<close>

theorem send_v_returns_minus_one_with_would_block:
  "blocking (Send_v 4 0 (Some full_batch))
   \<and> global_error stale_would_block = CORO_BUS_ERR_WOULD_BLOCK
   \<and> queue_at stale_would_block 0 = Some []
   \<and> fst (perform (Send_v 4 0 (Some full_batch)) stale_would_block) = Failed
   \<and> global_error (snd (perform (Send_v 4 0 (Some full_batch)) stale_would_block))
       = CORO_BUS_ERR_WOULD_BLOCK
   \<and> queue_at (snd (perform (Send_v 4 0 (Some full_batch)) stale_would_block)) 0
       = Some full_batch"
proof -
  have b: "queue_at stale_would_block 0 = Some []"
    by (simp add: queue_at_def stale_would_block_channel)
  have e: "global_error stale_would_block = CORO_BUS_ERR_WOULD_BLOCK"
    by (simp add: stale_would_block_eq)
  have t: "(4294967295 :: 32 word)
      = (if word_of_nat (length full_batch) < space_of \<lparr>size_limit = 4294967295,
              send_queue = [], recv_queue = [], data = \<lparr>dv_data = [], dv_capacity = 0\<rparr>\<rparr>
         then word_of_nat (length full_batch)
         else space_of \<lparr>size_limit = 4294967295, send_queue = [], recv_queue = [],
              data = \<lparr>dv_data = [], dv_capacity = 0\<rparr>\<rparr>)"
    by (simp add: stale_would_block_space length_full_batch)
  have nz: "space_of \<lparr>size_limit = 4294967295, send_queue = [], recv_queue = [],
              data = \<lparr>dv_data = [], dv_capacity = 0\<rparr>\<rparr> \<noteq> 0"
    by (simp add: stale_would_block_space)
  note p = send_v_progress [OF stale_would_block_channel nz t, of 4]
  have c: "fst (perform (Send_v 4 0 (Some full_batch)) stale_would_block) = Failed"
    using p(1) by (simp add: returning_def)
  have d: "global_error (snd (perform (Send_v 4 0 (Some full_batch)) stale_would_block))
       = CORO_BUS_ERR_WOULD_BLOCK"
    using p(2) e by simp
  have f: "queue_at (snd (perform (Send_v 4 0 (Some full_batch)) stale_would_block)) 0
       = Some full_batch"
    using p(3) by (simp add: length_full_batch)
  from b c d e f show ?thesis by simp
qed

subsection \<open>Invalid handles (C5)\<close>

lemma invalid_handle_no_channel:
  assumes "channel_at w channel = None"
    and "st \<in> {Send c channel x, Try_send channel x, Send_v c channel d, Try_send_v channel d,
               Recv_v c channel ok cap, Try_recv_v channel ok cap}"
  shows "perform st w = (Failed, coro_bus_errno_set CORO_BUS_ERR_NO_CHANNEL w)"
  using assms
  by (auto simp: coro_bus_send_def coro_bus_try_send_def coro_bus_send_v_def
      coro_bus_try_send_v_def coro_bus_recv_v_def coro_bus_try_recv_v_def split: option.splits)

text \<open>
  C5 does not hold for \<^verbatim>\<open>coro_bus_recv\<close> and \<^verbatim>\<open>coro_bus_try_recv\<close>: their guard
  (lines 283 and 304) lacks the range tests the other six operations make, so on a bus
  with one slot the handles 1 and \<open>-1\<close> make them read \<^verbatim>\<open>bus->channels[channel]\<close>
  outside the array instead of failing with \<^verbatim>\<open>CORO_BUS_ERR_NO_CHANNEL\<close>. For the six
  guarded operations the claim is \<open>invalid_handle_no_channel\<close> above.
\<close>

theorem recv_reads_outside_the_slot_array:
  "coro_bus_try_recv one_channel 1 = (Fault, one_channel)
   \<and> coro_bus_recv one_channel 5 (- 1) = (Fault, one_channel)"
  by (simp add: one_channel_eq bus_simps)

subsection \<open>Opening a channel (C6)\<close>

lemma first_free_Some:
  "first_free ss = Some i \<longleftrightarrow> i < length ss \<and> ss ! i = None \<and> (\<forall>j<i. ss ! j \<noteq> None)"
proof (induction ss arbitrary: i rule: first_free.induct)
  case 1
  then show ?case by simp
next
  case (2 ss)
  then show ?case by (cases i) auto
next
  case (3 c ss)
  show ?case
  proof (cases i)
    case 0
    then show ?thesis by auto
  next
    case (Suc n)
    have "(\<forall>j<Suc n. (Some c # ss) ! j \<noteq> None) \<longleftrightarrow> (\<forall>j<n. ss ! j \<noteq> None)"
      by (auto simp: less_Suc_eq_0_disj)
    with Suc 3[of n] show ?thesis by auto
  qed
qed

lemma first_free_None: "first_free ss = None \<longleftrightarrow> None \<notin> set ss"
  by (induction ss rule: first_free.induct) auto

text \<open>
  C6, as amended. When the channel object can be allocated, \<^verbatim>\<open>coro_bus_channel_open\<close>
  puts it into the first free slot and returns that index if a free slot exists;
  otherwise it appends a slot and returns the index of the new slot; and when that growth
  of the slot array fails, it returns \<open>-1\<close> with the last error
  \<^verbatim>\<open>CORO_BUS_ERR_NO_CHANNEL\<close> and leaves the bus as it was.
\<close>

theorem open_reuses_first_free_slot_or_grows:
  "bus w = Some b \<Longrightarrow>
   (i < length (channels b) \<and> channels b ! i = None \<and> (\<forall>j<i. channels b ! j \<noteq> None) \<longrightarrow>
      coro_bus_channel_open w limit (Some p) r =
        (Ok (int i),
         w\<lparr>bus := Some (b\<lparr>channels := (channels b)
           [i := Some (p, \<lparr>size_limit = limit, send_queue = [], recv_queue = [],
                           data = \<lparr>dv_data = [], dv_capacity = 0\<rparr>\<rparr>)]\<rparr>)\<rparr>))
   \<and> (None \<notin> set (channels b) \<and> r \<longrightarrow>
      coro_bus_channel_open w limit (Some p) r =
        (Ok (int (length (channels b))),
         w\<lparr>bus := Some (b\<lparr>channels := channels b @
           [Some (p, \<lparr>size_limit = limit, send_queue = [], recv_queue = [],
                      data = \<lparr>dv_data = [], dv_capacity = 0\<rparr>\<rparr>)]\<rparr>)\<rparr>))
   \<and> (None \<notin> set (channels b) \<and> \<not> r \<longrightarrow>
      coro_bus_channel_open w limit (Some p) r =
        (Fail, coro_bus_errno_set CORO_BUS_ERR_NO_CHANNEL w))"
proof (intro conjI impI)
  assume b: "bus w = Some b"
  {
    assume "i < length (channels b) \<and> channels b ! i = None \<and> (\<forall>j<i. channels b ! j \<noteq> None)"
    then have "first_free (channels b) = Some i" by (simp add: first_free_Some)
    with b show "coro_bus_channel_open w limit (Some p) r =
        (Ok (int i),
         w\<lparr>bus := Some (b\<lparr>channels := (channels b)
           [i := Some (p, \<lparr>size_limit = limit, send_queue = [], recv_queue = [],
                           data = \<lparr>dv_data = [], dv_capacity = 0\<rparr>\<rparr>)]\<rparr>)\<rparr>)"
      by (simp add: coro_bus_channel_open_def)
  next
    assume "None \<notin> set (channels b) \<and> r"
    then have "first_free (channels b) = None" and r by (simp_all add: first_free_None)
    with b show "coro_bus_channel_open w limit (Some p) r =
        (Ok (int (length (channels b))),
         w\<lparr>bus := Some (b\<lparr>channels := channels b @
           [Some (p, \<lparr>size_limit = limit, send_queue = [], recv_queue = [],
                      data = \<lparr>dv_data = [], dv_capacity = 0\<rparr>\<rparr>)]\<rparr>)\<rparr>)"
      by (simp add: coro_bus_channel_open_def)
  next
    assume "None \<notin> set (channels b) \<and> \<not> r"
    then have "first_free (channels b) = None" and "\<not> r" by (simp_all add: first_free_None)
    with b show "coro_bus_channel_open w limit (Some p) r =
        (Fail, coro_bus_errno_set CORO_BUS_ERR_NO_CHANNEL w)"
      by (simp add: coro_bus_channel_open_def)
  }
qed

text \<open>
  C6 as stated fails: when the slot array cannot grow, the error left behind is
  \<^verbatim>\<open>CORO_BUS_ERR_NO_CHANNEL\<close> (line 176), not an allocation error.
\<close>

theorem open_growth_failure_sets_no_channel:
  "fst (coro_bus_channel_open one_channel 2 (Some 2) False) = Fail
   \<and> global_error (snd (coro_bus_channel_open one_channel 2 (Some 2) False))
       = CORO_BUS_ERR_NO_CHANNEL
   \<and> global_error (snd (coro_bus_channel_open one_channel 2 (Some 2) False))
       \<noteq> CORO_BUS_ERR_ALLOCATION"
  by (simp add: one_channel_eq bus_simps)

text \<open>
  The witness: slot 0 of \<open>slot_released\<close> is reused, \<open>one_channel\<close> grows to a
  second slot, and the failed growth of \<open>one_channel\<close>.
\<close>

theorem open_reuses_first_free_slot_or_grows_witness:
  "bus slot_released = Some (the (bus slot_released))
   \<and> 0 < length (channels (the (bus slot_released)))
   \<and> channels (the (bus slot_released)) ! 0 = None
   \<and> fst (coro_bus_channel_open slot_released 5 (Some 3) True) = Ok 0
   \<and> bus one_channel = Some (the (bus one_channel))
   \<and> None \<notin> set (channels (the (bus one_channel)))
   \<and> fst (coro_bus_channel_open one_channel 5 (Some 3) True) = Ok 1
   \<and> coro_bus_channel_open one_channel 5 (Some 3) False
       = (Fail, coro_bus_errno_set CORO_BUS_ERR_NO_CHANNEL one_channel)"
  using open_reuses_first_free_slot_or_grows
      [of slot_released "the (bus slot_released)" 0 5 3 True]
    open_reuses_first_free_slot_or_grows
      [of one_channel "the (bus one_channel)" 0 5 3 True]
    open_reuses_first_free_slot_or_grows
      [of one_channel "the (bus one_channel)" 0 5 3 False]
  by (simp add: one_channel_eq slot_released_def bus_simps)

subsection \<open>A batch sent without blocking (C7)\<close>

lemma space_of_exact:
  assumes "length (dv_data (data chan)) \<le> unat (size_limit chan)"
    and "unat (size_limit chan) - length (dv_data (data chan)) < 2 ^ 32"
  shows "unat (space_of chan) = unat (size_limit chan) - length (dv_data (data chan))"
proof -
  let ?n = "length (dv_data (data chan))"
  have lt: "?n < 2 ^ 64"
    using assms(1) unsigned_less[of "size_limit chan", where 'a = nat] by simp
  then have n: "unat (word_of_nat ?n :: 64 word) = ?n"
    by (simp add: unat_of_nat)
  then have le: "(word_of_nat ?n :: 64 word) \<le> size_limit chan"
    using assms(1) by (simp add: word_le_nat_alt)
  have "unat (size_limit chan - word_of_nat ?n) = unat (size_limit chan) - ?n"
    using le n by (simp add: unat_sub)
  then show ?thesis using assms(2)
    by (simp add: space_of_def unsigned_ucast_eq take_bit_nat_eq_self)
qed

lemma try_send_v_within_unsigned:
  assumes ch: "channel_at w i = Some (p, chan)"
    and le: "length (dv_data (data chan)) \<le> unat (size_limit chan)"
    and room: "room = unat (size_limit chan) - length (dv_data (data chan))"
    and small: "room < 2 ^ 32" "length xs < 2 ^ 31"
  shows "(room = 0 \<longrightarrow>
            coro_bus_try_send_v w i (Some xs) = (Fail, coro_bus_errno_set CORO_BUS_ERR_WOULD_BLOCK w))
       \<and> (0 < room \<longrightarrow>
            fst (coro_bus_try_send_v w i (Some xs)) = Ok (int (min room (length xs)))
            \<and> queue_at (snd (coro_bus_try_send_v w i (Some xs))) i
                = Some (dv_data (data chan) @ take (min room (length xs)) xs))"
proof -
  have sp: "unat (space_of chan) = room"
    using space_of_exact[OF le] room small(1) by simp
  have cnt: "unat (word_of_nat (length xs) :: 32 word) = length xs"
    using small(2) by (rule count_small)
  show ?thesis
  proof (cases "room = 0")
    case True
    with sp have "space_of chan = 0" by (simp add: unat_eq_0)
    with ch True show ?thesis by (simp add: coro_bus_try_send_v_def)
  next
    case False
    with sp have nz: "space_of chan \<noteq> 0" by (auto simp: unat_eq_0)
    define to_send where
      "to_send = (if word_of_nat (length xs) < space_of chan
                  then word_of_nat (length xs) else space_of chan)"
    have lt: "(word_of_nat (length xs) :: 32 word) < space_of chan \<longleftrightarrow> length xs < room"
      by (simp add: word_less_nat_alt cnt sp)
    have ts: "unat to_send = min room (length xs)"
      by (auto simp: to_send_def lt cnt sp)
    have "unat to_send < 2 ^ 31"
      unfolding to_send_def using small(2) by (rule to_send_small)
    then have si: "sint to_send = int (min room (length xs))"
      using ts by (simp only: sint_small)
    note p = try_send_v_progress [OF ch nz to_send_def]
    have "returning (sint to_send) (sint to_send) = Ok (int (min room (length xs)))"
      unfolding si by (simp add: returning_def)
    with p(1) have a: "fst (coro_bus_try_send_v w i (Some xs)) = Ok (int (min room (length xs)))"
      by (simp only:)
    from p(3) have b: "queue_at (snd (coro_bus_try_send_v w i (Some xs))) i
        = Some (dv_data (data chan) @ take (min room (length xs)) xs)"
      by (simp only: ts)
    from a b False show ?thesis by blast
  qed
qed

lemma huge_channel_eq:
  "huge_channel =
     \<lparr>bus = Some \<lparr>channels = [Some (1, \<lparr>size_limit = 4294967296, send_queue = [],
        recv_queue = [], data = \<lparr>dv_data = [], dv_capacity = 0\<rparr>\<rparr>)]\<rparr>,
      global_error = CORO_BUS_ERR_NONE, woken = {}\<rparr>"
  by (simp add: huge_channel_def bus_simps)

lemma ucast_minus_one: "(ucast (- 1 :: 64 word) :: 32 word) = 4294967295"
  by code_simp

text \<open>
  C7 does not hold for every channel: the room is computed in \<^verbatim>\<open>size_t\<close> and stored
  in an \<^verbatim>\<open>unsigned\<close> (line 496). On the empty channel of capacity \<open>2 ^ 32\<close> the
  stored value is 0, and \<^verbatim>\<open>coro_bus_try_send_v\<close> of one message fails with
  \<^verbatim>\<open>CORO_BUS_ERR_WOULD_BLOCK\<close> although the room is not zero. On the channel of
  capacity 1 that holds two messages after the broadcast on \<open>receiver_then_full\<close> the
  subtraction wraps around to \<open>2 ^ 32 - 1\<close>, and a batch of two messages is appended
  although there is no room. Where the queue is within the capacity, the room fits an
  \<^verbatim>\<open>unsigned\<close> and the batch has fewer than \<open>2 ^ 31\<close> messages, the claim is
  \<open>try_send_v_within_unsigned\<close> above.
\<close>

theorem try_send_v_misjudges_room:
  "coro_bus_try_send_v huge_channel 0 (Some [1])
     = (Fail, huge_channel\<lparr>global_error := CORO_BUS_ERR_WOULD_BLOCK\<rparr>)
   \<and> channel_at huge_channel 0
       = Some (1, \<lparr>size_limit = 4294967296, send_queue = [], recv_queue = [],
                   data = \<lparr>dv_data = [], dv_capacity = 0\<rparr>\<rparr>)
   \<and> channel_at (exec (Broadcast 6 9) receiver_then_full) 0
       = Some (1, \<lparr>size_limit = 1, send_queue = [], recv_queue = [5],
                   data = \<lparr>dv_data = [7, 9], dv_capacity = 4\<rparr>\<rparr>)
   \<and> fst (coro_bus_try_send_v (exec (Broadcast 6 9) receiver_then_full) 0 (Some [1, 2])) = Ok 2"
  by (simp add: huge_channel_eq receiver_then_full_eq bus_simps ucast_minus_one)

subsection \<open>A blocking batch (C8)\<close>

text \<open>
  C8 as stated fails: one call of \<^verbatim>\<open>coro_bus_send_v\<close> with 5 messages on the empty
  channel of capacity 3 returns 3 after its first pass (line 479), and the channel holds
  the first 3 messages only.
\<close>

theorem send_v_returns_after_first_pass:
  "fst (coro_bus_send_v one_channel 4 0 (Some [1, 2, 3, 4, 5])) = Ok 3
   \<and> channel_at (snd (coro_bus_send_v one_channel 4 0 (Some [1, 2, 3, 4, 5]))) 0
       = Some (1, \<lparr>size_limit = 3, send_queue = [], recv_queue = [],
                   data = \<lparr>dv_data = [1, 2, 3], dv_capacity = 4\<rparr>\<rparr>)"
  by (simp add: one_channel_eq bus_simps)

text \<open>
  C8, as amended. One call of \<^verbatim>\<open>coro_bus_send_v\<close> with 5 messages on an empty channel
  of capacity 3 does not suspend: it appends the first 3 messages in one pass and returns
  3. The other 2 are left to later calls.
\<close>

theorem send_v_five_into_three:
  assumes "channel_at w channel = Some (p, chan)"
    and "size_limit chan = 3" and "dv_data (data chan) = []"
  shows "\<exists>w' chan'. coro_bus_send_v w self channel (Some [v1, v2, v3, v4, v5]) = (Ok 3, w')
           \<and> channel_at w' channel = Some (p, chan')
           \<and> dv_data (data chan') = [v1, v2, v3]"
proof -
  have sp: "space_of chan = 3" using assms(2,3) by (simp add: space_of_def)
  let ?r = "append_each (recv_queue chan) [v1, v2, v3] (data chan) w"
  let ?w' = "wakeup_queue_wakeup_first (send_queue chan)
               (store_chan channel p (chan\<lparr>data := fst ?r\<rparr>) (snd ?r))"
  have e: "coro_bus_send_v w self channel (Some [v1, v2, v3, v4, v5]) = (Ok 3, ?w')"
    using assms(1) sp
    by (simp add: coro_bus_send_v_def send_v_pass_def Let_def split_beta returning_def)
  have "channel_at (snd ?r) channel = Some (p, chan)"
    using assms(1) by simp
  then have c: "channel_at ?w' channel = Some (p, chan\<lparr>data := fst ?r\<rparr>)"
    by (simp add: channel_at_store_chan)
  have d: "dv_data (data (chan\<lparr>data := fst ?r\<rparr>)) = [v1, v2, v3]"
    using assms(3) by (simp add: data_vector_append_data)
  from e c d show ?thesis by blast
qed

text \<open>The witness: the messages 10, 20, 30, 40, 50 on \<open>one_channel\<close>.\<close>

theorem send_v_five_into_three_witness:
  "channel_at one_channel 0
     = Some (1, \<lparr>size_limit = 3, send_queue = [], recv_queue = [],
                 data = \<lparr>dv_data = [], dv_capacity = 0\<rparr>\<rparr>)
   \<and> (\<exists>w' chan'. coro_bus_send_v one_channel 4 0 (Some [10, 20, 30, 40, 50]) = (Ok 3, w')
           \<and> channel_at w' 0 = Some (1, chan')
           \<and> dv_data (data chan') = [10, 20, 30])"
proof -
  have c: "channel_at one_channel 0
     = Some (1, \<lparr>size_limit = 3, send_queue = [], recv_queue = [],
                 data = \<lparr>dv_data = [], dv_capacity = 0\<rparr>\<rparr>)"
    by (simp add: one_channel_eq channel_at_def)
  from send_v_five_into_three [OF c, of 4 10 20 30 40 50] c show ?thesis by simp
qed

subsection \<open>First in, first out (C4)\<close>

lemma send_with_room:
  assumes "channel_at w i = Some (p, chan)" and "has_room chan"
  shows "\<exists>w' chan'. coro_bus_send w c i x = (Ok (), w')
           \<and> channel_at w' i = Some (p, chan')
           \<and> dv_data (data chan') = dv_data (data chan) @ [x]
           \<and> size_limit chan' = size_limit chan"
proof -
  let ?chan' = "chan\<lparr>data := data_vector_append (data chan) x\<rparr>"
  let ?w' = "wakeup_queue_wakeup_first (send_queue chan)
               (wakeup_queue_wakeup_first (recv_queue chan) (store_chan i p ?chan' w))"
  have "coro_bus_send w c i x = (Ok (), ?w')"
    using assms by (simp add: coro_bus_send_def)
  moreover have "channel_at ?w' i = Some (p, ?chan')"
    using assms(1) by (simp add: channel_at_store_chan)
  moreover have "dv_data (data ?chan') = dv_data (data chan) @ [x]"
    by (simp add: data_vector_append_data)
  moreover have "size_limit ?chan' = size_limit chan" by simp
  ultimately show ?thesis by blast
qed

lemma send_all_appends:
  "channel_at w i = Some (p, chan) \<Longrightarrow>
   length (dv_data (data chan)) + length xs \<le> unat (size_limit chan) \<Longrightarrow>
   \<exists>w' chan'. send_all c i xs w = Some w'
      \<and> channel_at w' i = Some (p, chan')
      \<and> dv_data (data chan') = dv_data (data chan) @ xs"
proof (induction xs arbitrary: w chan)
  case Nil
  then show ?case by simp
next
  case (Cons x xs)
  from Cons.prems(2) have "has_room chan" by (simp add: has_room_def)
  from send_with_room[OF Cons.prems(1) this, of c x]
  obtain w1 chan1 where s: "coro_bus_send w c i x = (Ok (), w1)"
    and c1: "channel_at w1 i = Some (p, chan1)"
    and d1: "dv_data (data chan1) = dv_data (data chan) @ [x]"
    and l1: "size_limit chan1 = size_limit chan"
    by blast
  from Cons.prems(2) d1 l1
  have "length (dv_data (data chan1)) + length xs \<le> unat (size_limit chan1)" by simp
  from Cons.IH[OF c1 this]
  obtain w' chan' where "send_all c i xs w1 = Some w'"
    and "channel_at w' i = Some (p, chan')"
    and "dv_data (data chan') = dv_data (data chan1) @ xs"
    by blast
  with s d1 show ?case by simp
qed

lemma recv_nonempty:
  assumes "channel_at w i = Some (p, chan)" and "dv_data (data chan) = x # rest"
  shows "\<exists>w' chan'. coro_bus_recv w c i = (Ok x, w')
           \<and> channel_at w' i = Some (p, chan')
           \<and> dv_data (data chan') = rest"
proof -
  from assms(1) obtain b where b: "bus w = Some b" and ne: "channels b \<noteq> []"
    and rs: "read_slot b i = Some (Some (p, chan))"
    by (auto simp: channel_at_def read_slot_def split: option.splits if_splits)
  let ?v = "(data chan)\<lparr>dv_data := rest\<rparr>"
  have pop: "data_vector_pop_first (data chan) = Some (x, ?v)"
    using assms(2) by (simp add: data_vector_pop_first_def data_vector_pop_first_many_def)
  let ?w' = "wakeup_queue_wakeup_first (send_queue chan) (store_chan i p (chan\<lparr>data := ?v\<rparr>) w)"
  have "coro_bus_recv w c i = (Ok x, ?w')"
    using b ne rs pop assms(2) by (simp add: coro_bus_recv_def recv_wait_def)
  moreover have "channel_at ?w' i = Some (p, chan\<lparr>data := ?v\<rparr>)"
    using assms(1) by (simp add: channel_at_store_chan)
  moreover have "dv_data (data (chan\<lparr>data := ?v\<rparr>)) = rest" by simp
  ultimately show ?thesis by blast
qed

lemma recv_all_takes:
  "channel_at w i = Some (p, chan) \<Longrightarrow> dv_data (data chan) = xs @ rest \<Longrightarrow>
   \<exists>w' chan'. recv_all c i (length xs) w = Some (xs, w')
      \<and> channel_at w' i = Some (p, chan')
      \<and> dv_data (data chan') = rest"
proof (induction xs arbitrary: w chan)
  case Nil
  then show ?case by simp
next
  case (Cons x xs)
  from Cons.prems(2) have "dv_data (data chan) = x # (xs @ rest)" by simp
  from recv_nonempty[OF Cons.prems(1) this, of c]
  obtain w1 chan1 where r: "coro_bus_recv w c i = (Ok x, w1)"
    and c1: "channel_at w1 i = Some (p, chan1)"
    and d1: "dv_data (data chan1) = xs @ rest"
    by blast
  from Cons.IH[OF c1 d1]
  obtain w' chan' where "recv_all c i (length xs) w1 = Some (xs, w')"
    and "channel_at w' i = Some (p, chan')"
    and "dv_data (data chan') = rest"
    by blast
  with r show ?case by simp
qed

text \<open>
  C4. On a channel that is idle (no message queued, no coroutine in either wait queue)
  and whose capacity is at least the number of messages, sending the messages one after
  the other with \<^verbatim>\<open>coro_bus_send\<close> succeeds each time without suspending, and
  receiving as many messages with \<^verbatim>\<open>coro_bus_recv\<close> afterwards succeeds each time and
  yields the same messages in the order they were sent.
\<close>

theorem fifo_round_trip:
  assumes "channel_at w channel = Some (p, chan)"
    and "dv_data (data chan) = []" and "send_queue chan = []" and "recv_queue chan = []"
    and "length xs \<le> unat (size_limit chan)"
  shows "\<exists>w1 w2. send_all c channel xs w = Some w1
           \<and> recv_all c' channel (length xs) w1 = Some (xs, w2)"
proof -
  from assms(2,5) have "length (dv_data (data chan)) + length xs \<le> unat (size_limit chan)"
    by simp
  from send_all_appends[OF assms(1) this, of c]
  obtain w1 chan1 where s: "send_all c channel xs w = Some w1"
    and c1: "channel_at w1 channel = Some (p, chan1)"
    and d1: "dv_data (data chan1) = dv_data (data chan) @ xs"
    by blast
  from d1 assms(2) have "dv_data (data chan1) = xs @ []" by simp
  from recv_all_takes[OF c1 this, of c']
  obtain w2 where "recv_all c' channel (length xs) w1 = Some (xs, w2)" by blast
  with s show ?thesis by blast
qed

text \<open>The witness: the messages 10, 20, 30 through the channel of \<open>one_channel\<close>.\<close>

theorem fifo_round_trip_witness:
  "channel_at one_channel 0
     = Some (1, \<lparr>size_limit = 3, send_queue = [], recv_queue = [],
                 data = \<lparr>dv_data = [], dv_capacity = 0\<rparr>\<rparr>)
   \<and> length [10, 20, 30 :: message] \<le> unat (3 :: size_t)
   \<and> (\<exists>w1 w2. send_all 4 0 [10, 20, 30] one_channel = Some w1
          \<and> recv_all 6 0 (length [10, 20, 30 :: message]) w1 = Some ([10, 20, 30], w2))"
proof -
  have c: "channel_at one_channel 0
     = Some (1, \<lparr>size_limit = 3, send_queue = [], recv_queue = [],
                 data = \<lparr>dv_data = [], dv_capacity = 0\<rparr>\<rparr>)"
    by (simp add: one_channel_eq channel_at_def)
  from fifo_round_trip [OF c, of "[10, 20, 30]" 4 6] c show ?thesis by simp
qed

subsection \<open>Closing a channel with parked coroutines (C2)\<close>

lemma woken_drain: "woken (drain q w) = woken w \<union> set q"
  by (induction q arbitrary: w) (auto simp: coro_wakeup_def coro_bus_errno_set_def)

lemma close_wakes_parked:
  assumes "channel_at w i = Some (p, chan)"
  shows "woken (coro_bus_channel_close w i) = woken w \<union> set (recv_queue chan) \<union> set (send_queue chan)"
    and "slot_of (coro_bus_channel_close w i) i = Some None"
proof -
  from assms obtain b where b: "bus w = Some b" and i: "0 \<le> i" "i < int (length (channels b))"
    by (auto simp: channel_at_def split: option.splits if_splits)
  from assms b show "woken (coro_bus_channel_close w i)
      = woken w \<union> set (recv_queue chan) \<union> set (send_queue chan)"
    by (simp add: coro_bus_channel_close_def Let_def woken_drain)
  from assms b i show "slot_of (coro_bus_channel_close w i) i = Some None"
    by (simp add: coro_bus_channel_close_def Let_def slot_of_def read_slot_def)
qed

lemma slot_of_rlist_del_entry:
  "slot_of (rlist_del_entry c w) i = map_option (map_option (apsnd (unlink c))) (slot_of w i)"
  by (cases "bus w") (auto simp: slot_of_def rlist_del_entry_def read_slot_def)

lemma send_resume_other_object:
  assumes "slot_of w i = Some s" and "\<And>chan. s \<noteq> Some (p, chan)"
  shows "coro_bus_send_resume w c i x p
         = (Fail, coro_bus_errno_set CORO_BUS_ERR_NO_CHANNEL (rlist_del_entry c w))"
proof (cases s)
  case None
  with assms(1) show ?thesis
    by (simp add: coro_bus_send_resume_def Let_def slot_of_rlist_del_entry)
next
  case (Some qc)
  obtain q chan where "qc = (q, chan)" by (cases qc)
  with Some assms(2)[of chan] have "q \<noteq> p" by auto
  with Some \<open>qc = (q, chan)\<close> assms(1) show ?thesis
    by (simp add: coro_bus_send_resume_def Let_def slot_of_rlist_del_entry)
qed

lemma recv_resume_other_object:
  assumes "slot_of w i = Some s" and "\<And>chan. s \<noteq> Some (p, chan)"
  shows "coro_bus_recv_resume w c i p
         = (Fail, coro_bus_errno_set CORO_BUS_ERR_NO_CHANNEL (rlist_del_entry c w))"
proof (cases s)
  case None
  with assms(1) show ?thesis
    by (simp add: coro_bus_recv_resume_def Let_def slot_of_rlist_del_entry)
next
  case (Some qc)
  obtain q chan where "qc = (q, chan)" by (cases qc)
  with Some assms(2)[of chan] have "q \<noteq> p" by auto
  with Some \<open>qc = (q, chan)\<close> assms(1) show ?thesis
    by (simp add: coro_bus_recv_resume_def Let_def slot_of_rlist_del_entry)
qed

lemma resume_right_after_close:
  assumes "channel_at w i = Some (p, chan)"
  shows "fst (coro_bus_send_resume (coro_bus_channel_close w i) c i x p) = Fail"
    and "global_error (snd (coro_bus_send_resume (coro_bus_channel_close w i) c i x p))
         = CORO_BUS_ERR_NO_CHANNEL"
    and "fst (coro_bus_recv_resume (coro_bus_channel_close w i) c i p) = Fail"
    and "global_error (snd (coro_bus_recv_resume (coro_bus_channel_close w i) c i p))
         = CORO_BUS_ERR_NO_CHANNEL"
  using close_wakes_parked(2)[OF assms]
  by (simp_all add: send_resume_other_object recv_resume_other_object coro_bus_errno_set_def)

lemma parked_sender_eq:
  "parked_sender =
     \<lparr>bus = Some \<lparr>channels = [Some (1, \<lparr>size_limit = 1, send_queue = [5], recv_queue = [],
        data = \<lparr>dv_data = [7], dv_capacity = 4\<rparr>\<rparr>)]\<rparr>,
      global_error = CORO_BUS_ERR_NONE, woken = {}\<rparr>"
  by (simp add: parked_sender_def bus_simps)

lemma closed_and_reopened_eq:
  "closed_and_reopened =
     \<lparr>bus = Some \<lparr>channels = [Some (1, \<lparr>size_limit = 1, send_queue = [], recv_queue = [],
        data = \<lparr>dv_data = [], dv_capacity = 0\<rparr>\<rparr>)]\<rparr>,
      global_error = CORO_BUS_ERR_NO_CHANNEL, woken = {5}\<rparr>"
  by (simp add: closed_and_reopened_def parked_sender_eq bus_simps)

text \<open>
  C2 does not hold in every run. Closing a channel wakes every coroutine in its two
  queues and empties the slot (\<open>close_wakes_parked\<close>), and a sender or receiver that
  resumes while the slot is empty or holds another object fails with
  \<^verbatim>\<open>CORO_BUS_ERR_NO_CHANNEL\<close> (\<open>resume_right_after_close\<close>,
  \<open>send_resume_other_object\<close>, \<open>recv_resume_other_object\<close>). But the test of lines
  250 and 291 compares addresses: in \<open>closed_and_reopened\<close> the closing coroutine has
  opened a channel again before coroutine 5 runs and the allocator has handed out the
  address just released, so the sender parked on the closed channel finds its pointer in
  the slot, sends its message into the new channel and returns 0.
\<close>

theorem parked_sender_outlives_close:
  "perform (Send 5 0 9) (run [Open 1 (Some 1) True, Try_send 0 7] coro_bus_new)
     = (Suspended (In_send 0 9 1), parked_sender)
   \<and> 5 \<in> woken closed_and_reopened
   \<and> fst (coro_bus_send_resume closed_and_reopened 5 0 9 1) = Ok ()
   \<and> channel_at (snd (coro_bus_send_resume closed_and_reopened 5 0 9 1)) 0
       = Some (1, \<lparr>size_limit = 1, send_queue = [], recv_queue = [],
                   data = \<lparr>dv_data = [9], dv_capacity = 4\<rparr>\<rparr>)"
  by (simp add: closed_and_reopened_eq parked_sender_eq bus_simps)

end
